theory Spec2Isabelle
  imports Complex_Main "HOL-Library.Multiset" "HOL-Library.List_Lexorder"
begin

section \<open>Data model\<close>

text \<open>
  Strings are lists of bytes; the Korean literals of \<^verbatim>\<open>index.tsx\<close> are written as
  their UTF-8 encodings. Only equality of these strings is used, which the encoding keeps.
\<close>

definition POSITIONS :: "string list" where
  "POSITIONS =
    [[CHR 0xEB, CHR 0xAA, CHR 0xA9, CHR 0xEC, CHR 0x82, CHR 0xAC],
     [CHR 0xEB, CHR 0xB6, CHR 0x80, CHR 0xEB, CHR 0xAA, CHR 0xA9, CHR 0xEC, CHR 0x82, CHR 0xAC],
     [CHR 0xEC, CHR 0x82, CHR 0xAC, CHR 0xEB, CHR 0xAA, CHR 0xA8],
     [CHR 0xEC, CHR 0xA0, CHR 0x84, CHR 0xEB, CHR 0x8F, CHR 0x84, CHR 0xEC, CHR 0x82, CHR 0xAC],
     [CHR 0xEC, CHR 0x9E, CHR 0xA5, CHR 0xEB, CHR 0xA1, CHR 0x9C],
     [CHR 0xEA, CHR 0xB6, CHR 0x8C, CHR 0xEC, CHR 0x82, CHR 0xAC],
     [CHR 0xEC, CHR 0xA7, CHR 0x91, CHR 0xEC, CHR 0x82, CHR 0xAC],
     [CHR 0xEC, CHR 0x84, CHR 0xB1, CHR 0xEB, CHR 0x8F, CHR 0x84],
     [CHR 0xEC, CHR 0xB2, CHR 0xAD, CHR 0xEB, CHR 0x85, CHR 0x84],
     [CHR 0xED, CHR 0x95, CHR 0x99, CHR 0xEC, CHR 0x83, CHR 0x9D],
     [CHR 0xEC, CHR 0xA3, CHR 0xBC, CHR 0xEC, CHR 0x9D, CHR 0xBC, CHR 0xED, CHR 0x95, CHR 0x99,
      CHR 0xEA, CHR 0xB5, CHR 0x90],
     [CHR 0xEA, CHR 0xB8, CHR 0xB0, CHR 0xED, CHR 0x83, CHR 0x80]]"

text \<open>The two attendance statuses, \<open>PRESENT\<close> (U+CD9C U+C11D) and \<open>ABSENT\<close> (U+ACB0 U+C11D).\<close>

definition PRESENT :: string where
  "PRESENT = [CHR 0xEC, CHR 0xB6, CHR 0x9C, CHR 0xEC, CHR 0x84, CHR 0x9D]"

definition ABSENT :: string where
  "ABSENT = [CHR 0xEA, CHR 0xB2, CHR 0xB0, CHR 0xEC, CHR 0x84, CHR 0x9D]"

definition ATTENDANCE_STATUSES :: "string list" where
  "ATTENDANCE_STATUSES = [PRESENT, ABSENT]"

definition ALL_FILTER :: string where
  "ALL_FILTER = [CHR 0xEC, CHR 0xA0, CHR 0x84, CHR 0xEC, CHR 0xB2, CHR 0xB4]"

text \<open>The marker that \<open>handleAttendanceChange\<close> takes for "no status" (U+BBF8 U+C815).\<close>

definition UNSET :: string where
  "UNSET = [CHR 0xEB, CHR 0xAF, CHR 0xB8, CHR 0xEC, CHR 0xA0, CHR 0x95]"

definition ITEMS_PER_PAGE :: nat where
  "ITEMS_PER_PAGE = 15"

section \<open>Numbers\<close>

text \<open>
  A JavaScript number is a double. A finite double is modelled by the rational number it
  holds, and an arithmetic operation by the exact result rounded to the nearest number
  with a 53-bit significand, ties to the even significand. The exponent range is not
  modelled: the operations of this program on finite doubles (the quotient of two lengths,
  its product with 100, an id plus 1) do not overflow, and a result in the subnormal range
  is exact. \<open>NaN\<close> is left out: \<open>JSON.parse\<close> never returns it, and \<open>Math.max\<close> and
  \<open>+ 1\<close> do not produce it from other numbers.
\<close>

datatype number = Finite rat | PosInfinity | NegInfinity

text \<open>The number of binary digits of a positive integer.\<close>

function bitLength :: "int \<Rightarrow> nat" where
  "bitLength n = (if n \<le> 0 then 0 else Suc (bitLength (n div 2)))"
  by pat_completeness auto
termination
  by (relation "measure nat") auto

declare bitLength.simps [simp del]

definition pow2 :: "int \<Rightarrow> rat" where
  "pow2 e = (if 0 \<le> e then 2 ^ nat e else 1 / 2 ^ nat (- e))"

text \<open>For \<open>x > 0\<close>, the exponent \<open>e\<close> with \<open>2^e \<le> x < 2^(e + 1)\<close>.\<close>

definition floorLog2 :: "rat \<Rightarrow> int" where
  "floorLog2 x =
    (let (a, b) = quotient_of x;
         d = int (bitLength a) - int (bitLength b)
     in if pow2 d \<le> x then d else d - 1)"

definition roundHalfEven :: "rat \<Rightarrow> int" where
  "roundHalfEven y =
    (let f = \<lfloor>y\<rfloor>; r = y - of_int f
     in if r < 1 / 2 then f else if 1 / 2 < r then f + 1 else if even f then f else f + 1)"

definition roundToDouble :: "rat \<Rightarrow> rat" where
  "roundToDouble x =
    (if x = 0 then 0
     else let u = pow2 (floorLog2 \<bar>x\<bar> - 52)
          in of_int (roundHalfEven (x / u)) * u)"

text \<open>The operators \<open>/\<close> and \<open>*\<close> on doubles.\<close>

definition divDouble :: "rat \<Rightarrow> rat \<Rightarrow> rat" where
  "divDouble a b = roundToDouble (a / b)"

definition mulDouble :: "rat \<Rightarrow> rat \<Rightarrow> rat" where
  "mulDouble a b = roundToDouble (a * b)"

text \<open>\<open>x + 1\<close> on a number.\<close>

fun plusOne :: "number \<Rightarrow> number" where
  "plusOne (Finite q) = Finite (roundToDouble (q + 1))"
| "plusOne PosInfinity = PosInfinity"
| "plusOne NegInfinity = NegInfinity"

text \<open>\<open>Math.max\<close> of a list of arguments; it starts from \<open>-Infinity\<close>.\<close>

fun numberLe :: "number \<Rightarrow> number \<Rightarrow> bool" where
  "numberLe NegInfinity y = True"
| "numberLe x PosInfinity = True"
| "numberLe (Finite a) (Finite b) = (a \<le> b)"
| "numberLe x y = False"

definition numberMax :: "number \<Rightarrow> number \<Rightarrow> number" where
  "numberMax x y = (if numberLe x y then y else x)"

definition Math_max :: "number list \<Rightarrow> number" where
  "Math_max args = foldl numberMax NegInfinity args"

text \<open>\<open>Number.isFinite\<close> and \<open>Number.isSafeInteger\<close>, and the integer that a number holds.\<close>

fun isFinite :: "number \<Rightarrow> bool" where
  "isFinite (Finite q) = True"
| "isFinite x = False"

fun isSafeInteger :: "number \<Rightarrow> bool" where
  "isSafeInteger (Finite q) = (q = of_int \<lfloor>q\<rfloor> \<and> \<bar>q\<bar> < 2 ^ 53)"
| "isSafeInteger x = False"

fun intValue :: "number \<Rightarrow> int" where
  "intValue (Finite q) = \<lfloor>q\<rfloor>"
| "intValue x = 0"

section \<open>Members and parsed values\<close>

text \<open>
  \<open>interface Member\<close>. The attendance object is the list of its own properties in
  enumeration order; \<open>map_of\<close> reads a property.
\<close>

record Member =
  id' :: number
  name :: string
  position :: string
  phone :: string
  attendance :: "(string \<times> string) list"

text \<open>
  A value as \<open>JSON.parse\<close> returns it. An object is the list of its own properties in
  enumeration order, each key once. A number literal too large for a double, such as
  \<open>1e999\<close>, is parsed to an infinity.
\<close>

datatype json =
    JNull
  | JBool bool
  | JNum number
  | JStr string
  | JArr "json list"
  | JObj "(string \<times> json) list"

text \<open>
  \<open>v.k\<close> for the property names read in this program (\<open>id\<close>, \<open>name\<close>,
  \<open>position\<close>, \<open>phone\<close>, \<open>attendance\<close>, \<open>status\<close>): an own property of an
  object, \<open>undefined\<close> (\<open>None\<close>) on an array, a string, a number or a boolean.
\<close>

fun getProp :: "json \<Rightarrow> string \<Rightarrow> json option" where
  "getProp (JObj fs) k = map_of fs k"
| "getProp _ k = None"

section \<open>Schema validator\<close>

text \<open>
  One constructor for each message of \<open>validateImportedData\<close>, carrying the values the
  message interpolates: the 1-based index \<open>i + 1\<close>, and for the position message the
  offending value (\<open>None\<close> when the property is missing).
\<close>

datatype ValidationError =
    EmptyInput
  | NotAnArray
  | ElementNotObject nat
  | MissingId nat
  | MissingName nat
  | InvalidPosition nat "json option"
  | MissingPhone nat
  | MissingAttendance nat
  | InvalidAttendanceEntry string string json

definition isDigit :: "char \<Rightarrow> bool" where
  "isDigit c = (c \<in> set ''0123456789'')"

text \<open>The test \<^verbatim>\<open>/^\d{4}-\d{2}-\d{2}$/\<close>.\<close>

definition isDateKey :: "string \<Rightarrow> bool" where
  "isDateKey s =
    (case s of
       [y1, y2, y3, y4, d1, m1, m2, d2, t1, t2] \<Rightarrow>
         isDigit y1 \<and> isDigit y2 \<and> isDigit y3 \<and> isDigit y4 \<and> d1 = CHR ''-'' \<and>
         isDigit m1 \<and> isDigit m2 \<and> d2 = CHR ''-'' \<and> isDigit t1 \<and> isDigit t2
     | _ \<Rightarrow> False)"

text \<open>
  The \<open>for (const date in member.attendance)\<close> loop over the own properties of an
  attendance object; it returns the entries it has checked.
\<close>

fun attendanceLoop :: "string \<Rightarrow> (string \<times> json) list \<Rightarrow> ValidationError + (string \<times> string) list" where
  "attendanceLoop nm [] = Inr []"
| "attendanceLoop nm ((date, v) # rest) =
    (case v of
       JStr s \<Rightarrow>
         if \<not> isDateKey date \<or> s \<notin> set ATTENDANCE_STATUSES
         then Inl (InvalidAttendanceEntry nm date v)
         else (case attendanceLoop nm rest of
                 Inl e \<Rightarrow> Inl e
               | Inr entries \<Rightarrow> Inr ((date, s) # entries))
     | _ \<Rightarrow> Inl (InvalidAttendanceEntry nm date v))"

text \<open>
  The checks on \<open>member.attendance\<close>. An array has type \<open>object\<close> too: its keys are
  its indices, so the loop stops at key \<open>0\<close> unless the array is empty.
\<close>

fun checkAttendance :: "nat \<Rightarrow> string \<Rightarrow> json option \<Rightarrow> ValidationError + (string \<times> string) list" where
  "checkAttendance i nm (Some (JObj fs)) = attendanceLoop nm fs"
| "checkAttendance i nm (Some (JArr [])) = Inr []"
| "checkAttendance i nm (Some (JArr (v # vs))) = Inl (InvalidAttendanceEntry nm ''0'' v)"
| "checkAttendance i nm _ = Inl (MissingAttendance (i + 1))"

text \<open>
  The body of the loop over \<open>data\<close> for the element at index \<open>i\<close>. The cast
  \<open>member as Member\<close> is modelled by building the record from the checked properties.
\<close>

definition validateMember :: "nat \<Rightarrow> json \<Rightarrow> ValidationError + Member" where
  "validateMember i member =
    (if \<not> (case member of JObj _ \<Rightarrow> True | JArr _ \<Rightarrow> True | _ \<Rightarrow> False)
     then Inl (ElementNotObject (i + 1))
     else case getProp member ''id'' of
       Some (JNum n) \<Rightarrow>
        (case getProp member ''name'' of
           Some (JStr nm) \<Rightarrow>
            (case getProp member ''position'' of
               Some (JStr pos) \<Rightarrow>
                 if pos \<notin> set POSITIONS
                 then Inl (InvalidPosition (i + 1) (getProp member ''position''))
                 else (case getProp member ''phone'' of
                         Some (JStr ph) \<Rightarrow>
                          (case checkAttendance i nm (getProp member ''attendance'') of
                             Inl e \<Rightarrow> Inl e
                           | Inr att \<Rightarrow>
                               Inr \<lparr>id' = n, name = nm, position = pos, phone = ph,
                                    attendance = att\<rparr>)
                       | _ \<Rightarrow> Inl (MissingPhone (i + 1)))
             | _ \<Rightarrow> Inl (InvalidPosition (i + 1) (getProp member ''position'')))
         | _ \<Rightarrow> Inl (MissingName (i + 1)))
     | _ \<Rightarrow> Inl (MissingId (i + 1)))"

fun validateLoop :: "nat \<Rightarrow> json list \<Rightarrow> ValidationError + Member list" where
  "validateLoop i [] = Inr []"
| "validateLoop i (member # rest) =
    (case validateMember i member of
       Inl e \<Rightarrow> Inl e
     | Inr m \<Rightarrow>
        (case validateLoop (Suc i) rest of
           Inl e \<Rightarrow> Inl e
         | Inr validatedMembers \<Rightarrow> Inr (m # validatedMembers)))"

text \<open>\<open>validateImportedData\<close>; the argument \<open>None\<close> is \<open>undefined\<close>.\<close>

fun validateImportedData :: "json option \<Rightarrow> ValidationError + Member list" where
  "validateImportedData None = Inl EmptyInput"
| "validateImportedData (Some JNull) = Inl EmptyInput"
| "validateImportedData (Some (JArr data)) = validateLoop 0 data"
| "validateImportedData (Some _) = Inl NotAnArray"

section \<open>Roster store\<close>

text \<open>
  \<open>a.name.localeCompare(b.name, 'ko')\<close> is the comparison of the collation keys of the two
  names; the key function \<open>collate\<close> is a parameter. \<open>Array.prototype.sort\<close> is stable, as
  \<open>sort_key\<close> is.
\<close>

definition sortByName :: "(string \<Rightarrow> 'k::linorder) \<Rightarrow> Member list \<Rightarrow> Member list" where
  "sortByName collate ms = sort_key (\<lambda>m. collate (name m)) ms"

text \<open>
  The id of the new member,
  \<open>(prevMembers.length > 0 ? Math.max(...prevMembers.map(m => m.id)) : 0) + 1\<close>.
\<close>

definition nextId :: "Member list \<Rightarrow> number" where
  "nextId prevMembers =
    plusOne (if length prevMembers > 0 then Math_max (map id' prevMembers) else Finite 0)"

text \<open>
  A call that spreads an array into more arguments than the engine accepts raises a
  \<open>RangeError\<close>; the limit \<open>maxArguments\<close> depends on the engine and is a parameter.
\<close>

datatype JsError = RangeError

definition handleAddMember ::
  "(string \<Rightarrow> 'k::linorder) \<Rightarrow> nat \<Rightarrow> Member list \<Rightarrow> string \<Rightarrow> string \<Rightarrow> string \<Rightarrow>
     JsError + Member list" where
  "handleAddMember collate maxArguments prevMembers nm pos ph =
    (if length prevMembers > 0 \<and> maxArguments < length prevMembers then Inl RangeError
     else
       let newMember = \<lparr>id' = nextId prevMembers, name = nm, position = pos, phone = ph,
                         attendance = []\<rparr>
       in Inr (sortByName collate (prevMembers @ [newMember])))"

text \<open>\<open>handleSaveMember\<close>: \<open>{ ...m, ...updatedMemberData }\<close> on every member whose id matches.\<close>

definition handleSaveMember ::
  "Member list \<Rightarrow> number \<Rightarrow> string \<Rightarrow> string \<Rightarrow> string \<Rightarrow> Member list" where
  "handleSaveMember prevMembers uid nm pos ph =
    map (\<lambda>m. if id' m = uid then m\<lparr>id' := uid, name := nm, position := pos, phone := ph\<rparr> else m)
      prevMembers"

text \<open>\<open>handleDeleteMember\<close>; \<open>confirmed\<close> is the answer of \<open>window.confirm\<close>.\<close>

definition handleDeleteMember :: "Member list \<Rightarrow> Member \<Rightarrow> bool \<Rightarrow> Member list" where
  "handleDeleteMember prevMembers memberToDelete confirmed =
    (if confirmed then filter (\<lambda>m. id' m \<noteq> id' memberToDelete) prevMembers else prevMembers)"

text \<open>
  \<open>newAttendance[date] = newStatus\<close> overwrites the value of an existing key in place and
  appends a new key; \<open>delete newAttendance[date]\<close> removes the key.
\<close>

fun setKey :: "string \<Rightarrow> 'v \<Rightarrow> (string \<times> 'v) list \<Rightarrow> (string \<times> 'v) list" where
  "setKey k v [] = [(k, v)]"
| "setKey k v ((k', v') # rest) = (if k' = k then (k, v) # rest else (k', v') # setKey k v rest)"

definition deleteKey :: "string \<Rightarrow> (string \<times> 'v) list \<Rightarrow> (string \<times> 'v) list" where
  "deleteKey k kvs = filter (\<lambda>(k', v). k' \<noteq> k) kvs"

definition handleAttendanceChange ::
  "Member list \<Rightarrow> number \<Rightarrow> string \<Rightarrow> string \<Rightarrow> Member list" where
  "handleAttendanceChange prevMembers mid date newStatus =
    map (\<lambda>member.
          if id' member = mid
          then member\<lparr>attendance :=
                 (if newStatus = UNSET then deleteKey date (attendance member)
                  else setKey date newStatus (attendance member))\<rparr>
          else member)
      prevMembers"

text \<open>
  \<open>handleImportData\<close> from the parsed file on: validation, the confirmation dialog, then
  \<open>setMembers\<close> of the sorted members. The result is the roster and the error reported.
\<close>

definition handleImportData ::
  "(string \<Rightarrow> 'k::linorder) \<Rightarrow> bool \<Rightarrow> Member list \<Rightarrow> json option \<Rightarrow>
     Member list \<times> ValidationError option" where
  "handleImportData collate confirmation members parsedData =
    (case validateImportedData parsedData of
       Inl e \<Rightarrow> (members, Some e)
     | Inr validatedMembers \<Rightarrow>
         (if confirmation then sortByName collate validatedMembers else members, None))"

section \<open>Export\<close>

text \<open>
  \<open>JSON.stringify(members, null, 2)\<close>, given by the value that the written text denotes
  (what \<open>JSON.parse\<close> returns on it); the text codec itself belongs to the host. A
  finite number is written so that it is read back as the same double, an infinite one is
  written as \<open>null\<close>.
\<close>

definition memberJson :: "Member \<Rightarrow> json" where
  "memberJson m =
    JObj [(''id'', if isFinite (id' m) then JNum (id' m) else JNull),
          (''name'', JStr (name m)), (''position'', JStr (position m)),
          (''phone'', JStr (phone m)),
          (''attendance'', JObj (map (\<lambda>(date, status). (date, JStr status)) (attendance m)))]"

definition serialize :: "Member list \<Rightarrow> json" where
  "serialize members = JArr (map memberJson members)"

text \<open>\<open>handleExportData\<close> writes nothing for an empty roster.\<close>

definition handleExportData :: "Member list \<Rightarrow> json option" where
  "handleExportData members = (if length members = 0 then None else Some (serialize members))"

section \<open>Loading the persisted roster\<close>

text \<open>
  The state initializer of \<open>App\<close>. The persisted value is an array of objects; \<open>saved\<close> is
  \<open>None\<close> when nothing is stored, \<open>today\<close> is \<open>getTodayString()\<close>.
\<close>

type_synonym obj = "(string \<times> json) list"

text \<open>JavaScript truthiness of a parsed value, for \<open>if (member.status)\<close>.\<close>

fun truthy :: "json \<Rightarrow> bool" where
  "truthy JNull = False"
| "truthy (JBool b) = b"
| "truthy (JNum n) = (n \<noteq> Finite 0)"
| "truthy (JStr s) = (s \<noteq> [])"
| "truthy (JArr xs) = True"
| "truthy (JObj fs) = True"

text \<open>The function mapped over \<open>parsedMembers\<close> by the migration.\<close>

definition migrateMember :: "string \<Rightarrow> obj \<Rightarrow> obj" where
  "migrateMember today member =
    (let newMember = setKey ''attendance'' (JObj []) member;
         newMember' =
           (case map_of member ''status'' of
              Some status \<Rightarrow>
                if truthy status then setKey ''attendance'' (JObj [(today, status)]) newMember
                else newMember
            | None \<Rightarrow> newMember)
     in deleteKey ''status'' newMember')"

definition migrate :: "string \<Rightarrow> obj list \<Rightarrow> obj list" where
  "migrate today parsedMembers =
    (case parsedMembers of
       [] \<Rightarrow> parsedMembers
     | first # rest \<Rightarrow>
         if map_of first ''status'' \<noteq> None then map (migrateMember today) parsedMembers
         else parsedMembers)"

definition storedName :: "obj \<Rightarrow> string option" where
  "storedName member = (case map_of member ''name'' of Some (JStr s) \<Rightarrow> Some s | _ \<Rightarrow> None)"

text \<open>
  The outcome of loading. With fewer than two elements the comparator is never called; a
  comparison whose first argument has no string \<open>name\<close> raises a \<open>TypeError\<close>, which the
  initializer catches, returning the empty \<open>initialMembers\<close>. When only some names are
  strings, whether that comparison happens is left to the engine's sorting algorithm.
\<close>

datatype loaded = Roster "obj list" | EngineDefined

definition sortStored :: "(string \<Rightarrow> 'k::linorder) \<Rightarrow> obj list \<Rightarrow> loaded" where
  "sortStored collate ms =
    (if length ms < 2 then Roster ms
     else if list_all (\<lambda>m. storedName m \<noteq> None) ms
     then Roster (sort_key (\<lambda>m. collate (the (storedName m))) ms)
     else if list_all (\<lambda>m. storedName m = None) ms then Roster []
     else EngineDefined)"

definition loadMembers :: "(string \<Rightarrow> 'k::linorder) \<Rightarrow> string \<Rightarrow> obj list option \<Rightarrow> loaded" where
  "loadMembers collate today saved =
    (case saved of
       None \<Rightarrow> Roster []
     | Some parsedMembers \<Rightarrow> sortStored collate (migrate today parsedMembers))"

section \<open>View projector\<close>

text \<open>\<open>v || null\<close> on an attendance lookup: \<open>undefined\<close> and the empty string give \<open>null\<close>.\<close>

definition orNull :: "string option \<Rightarrow> string option" where
  "orNull v = (case v of None \<Rightarrow> None | Some s \<Rightarrow> if s = [] then None else Some s)"

definition filteredMembers :: "Member list \<Rightarrow> string \<Rightarrow> string \<Rightarrow> string \<Rightarrow> Member list" where
  "filteredMembers members positionFilter statusFilter viewingDate =
    filter (\<lambda>member.
      let positionMatch = (positionFilter = ALL_FILTER \<or> position member = positionFilter);
          statusMatch = (statusFilter = ALL_FILTER \<or>
                         orNull (map_of (attendance member) viewingDate) = Some statusFilter)
      in positionMatch \<and> statusMatch) members"

record Counts =
  total :: nat
  present :: nat
  absent :: nat

definition attendanceCounts :: "Member list \<Rightarrow> string \<Rightarrow> string \<Rightarrow> Counts" where
  "attendanceCounts members positionFilter viewingDate =
    (let membersToCount =
           filter (\<lambda>member. positionFilter = ALL_FILTER \<or> position member = positionFilter) members
     in \<lparr>total = length membersToCount,
         present = length (filter (\<lambda>m. map_of (attendance m) viewingDate = Some PRESENT) membersToCount),
         absent = length (filter (\<lambda>m. map_of (attendance m) viewingDate = Some ABSENT) membersToCount)\<rparr>)"

text \<open>\<open>Array.prototype.slice\<close> with its treatment of negative and overlong indices.\<close>

definition slice :: "'a list \<Rightarrow> int \<Rightarrow> int \<Rightarrow> 'a list" where
  "slice xs start end =
    (let len = int (length xs);
         k = (if start < 0 then max (len + start) 0 else min start len);
         final = (if end < 0 then max (len + end) 0 else min end len)
     in take (nat (final - k)) (drop (nat k) xs))"

text \<open>\<open>paginatedMembers\<close> and \<open>totalPages\<close>, with the page size as a parameter.\<close>

definition paginate :: "'a list \<Rightarrow> int \<Rightarrow> nat \<Rightarrow> 'a list" where
  "paginate filtered currentPage pageSize =
    (let startIndex = (currentPage - 1) * int pageSize;
         endIndex = startIndex + int pageSize
     in slice filtered startIndex endIndex)"

definition pageCount :: "nat \<Rightarrow> nat \<Rightarrow> int" where
  "pageCount len pageSize = \<lceil>(of_nat len :: rat) / of_nat pageSize\<rceil>"

definition paginatedMembers :: "Member list \<Rightarrow> int \<Rightarrow> Member list" where
  "paginatedMembers filtered currentPage = paginate filtered currentPage ITEMS_PER_PAGE"

definition totalPages :: "Member list \<Rightarrow> int" where
  "totalPages filtered = pageCount (length filtered) ITEMS_PER_PAGE"

section \<open>Member statistics\<close>

text \<open>
  The rates are computed on doubles: \<open>(presentYear / totalYear) * 100\<close> rounds twice, and
  \<open>23 / 40 * 100\<close> is \<open>57.49999999999999\<close>, not \<open>57.5\<close>.
\<close>

text \<open>\<open>String(n)\<close> for an integer.\<close>

fun String_nat :: "nat \<Rightarrow> string" where
  "String_nat n =
    (if n < 10 then [''0123456789'' ! n]
     else String_nat (n div 10) @ [''0123456789'' ! (n mod 10)])"

declare String_nat.simps [simp del]

definition String_int :: "int \<Rightarrow> string" where
  "String_int n = (if n < 0 then ''-'' @ String_nat (nat (- n)) else String_nat (nat n))"

text \<open>
  \<open>x.toFixed(0)\<close> for \<open>\<bar>x\<bar> < 10^21\<close>: the decimal digits of the integer nearest to
  \<open>x\<close>, the larger one of two.
\<close>

definition toFixed0 :: "rat \<Rightarrow> string" where
  "toFixed0 x =
    (if x < 0 then ''-'' @ String_nat (nat \<lfloor>- x + 1 / 2\<rfloor>) else String_nat (nat \<lfloor>x + 1 / 2\<rfloor>))"

text \<open>A rate is the string that \<open>toFixed\<close> returns, or the number \<open>0\<close>.\<close>

datatype Rate = RateText string | RateNumber int

record Stats =
  presentMonth :: nat
  totalMonth :: nat
  monthRate :: Rate
  presentYear :: nat
  totalYear :: nat
  yearRate :: Rate

definition rate :: "nat \<Rightarrow> nat \<Rightarrow> Rate" where
  "rate presentN totalN =
    (if totalN > 0 then RateText (toFixed0 (mulDouble (divDouble (of_nat presentN) (of_nat totalN)) 100))
     else RateNumber 0)"

text \<open>
  \<open>stats\<close> of \<open>MemberDetailModal\<close>. \<open>dateMonth date\<close> is \<open>new Date(date).getMonth()\<close>,
  a month from 0 to 11 in the local time zone, or \<open>None\<close> for \<open>NaN\<close>; it is a parameter.
\<close>

definition memberStats :: "(string \<Rightarrow> nat option) \<Rightarrow> Member \<Rightarrow> int \<Rightarrow> nat \<Rightarrow> Stats" where
  "memberStats dateMonth member year month =
    (let yearAtt = filter (\<lambda>(date, status). take (length (String_int year)) date = String_int year)
                     (attendance member);
         monthAtt = filter (\<lambda>(date, status). dateMonth date = Some month) yearAtt;
         totalYear = length yearAtt;
         presentYear = length (filter (\<lambda>(date, status). status = PRESENT) yearAtt);
         totalMonth = length monthAtt;
         presentMonth = length (filter (\<lambda>(date, status). status = PRESENT) monthAtt)
     in \<lparr>presentMonth = presentMonth, totalMonth = totalMonth,
         monthRate = rate presentMonth totalMonth,
         presentYear = presentYear, totalYear = totalYear,
         yearRate = rate presentYear totalYear\<rparr>)"

section \<open>Valid members and sample data\<close>

text \<open>
  The invariants of a member that the validator checks beyond the types of the fields.
\<close>

definition validMember :: "Member \<Rightarrow> bool" where
  "validMember m =
    (position m \<in> set POSITIONS \<and>
     list_all (\<lambda>(date, status). isDateKey date \<and> status \<in> set ATTENDANCE_STATUSES) (attendance m))"

text \<open>
  Two instances of the parameters, for evaluating the functions on concrete inputs: the
  order of the code units as collation key, and the month field of a date string, which is
  what \<open>getMonth\<close> returns for a calendar date in the time zones east of Greenwich.
\<close>

definition codeUnitOrder :: "string \<Rightarrow> nat list" where
  "codeUnitOrder s = map of_char s"

definition digitValue :: "char \<Rightarrow> nat" where
  "digitValue c = of_char c - 48"

definition isoMonth :: "string \<Rightarrow> nat option" where
  "isoMonth date =
    (if isDateKey date
     then let m = 10 * digitValue (date ! 5) + digitValue (date ! 6)
          in if 1 \<le> m \<and> m \<le> 12 then Some (m - 1) else None
     else None)"

text \<open>The position at index 6 of \<open>POSITIONS\<close> (U+C9D1 U+C0AC).\<close>

definition JIPSA :: string where
  "JIPSA = [CHR 0xEC, CHR 0xA7, CHR 0x91, CHR 0xEC, CHR 0x82, CHR 0xAC]"

definition sampleKim :: Member where
  "sampleKim = \<lparr>id' = Finite 1, name = ''Kim'', position = JIPSA, phone = ''010-1111-2222'',
                 attendance = [(''2024-01-07'', PRESENT)]\<rparr>"

definition sampleLee :: Member where
  "sampleLee = \<lparr>id' = Finite 2, name = ''Lee'', position = JIPSA, phone = ''010-3333-4444'',
                 attendance = []\<rparr>"

text \<open>Forty Sundays of 2024, the first twenty-three of them attended.\<close>

definition fortySundays :: "(string \<times> string) list" where
  "fortySundays =
    [(''2024-01-07'', PRESENT), (''2024-01-14'', PRESENT), (''2024-01-21'', PRESENT),
     (''2024-01-28'', PRESENT), (''2024-02-04'', PRESENT), (''2024-02-11'', PRESENT),
     (''2024-02-18'', PRESENT), (''2024-02-25'', PRESENT), (''2024-03-03'', PRESENT),
     (''2024-03-10'', PRESENT), (''2024-03-17'', PRESENT), (''2024-03-24'', PRESENT),
     (''2024-03-31'', PRESENT), (''2024-04-07'', PRESENT), (''2024-04-14'', PRESENT),
     (''2024-04-21'', PRESENT), (''2024-04-28'', PRESENT), (''2024-05-05'', PRESENT),
     (''2024-05-12'', PRESENT), (''2024-05-19'', PRESENT), (''2024-05-26'', PRESENT),
     (''2024-06-02'', PRESENT), (''2024-06-09'', PRESENT), (''2024-06-16'', ABSENT),
     (''2024-06-23'', ABSENT), (''2024-06-30'', ABSENT), (''2024-07-07'', ABSENT),
     (''2024-07-14'', ABSENT), (''2024-07-21'', ABSENT), (''2024-07-28'', ABSENT),
     (''2024-08-04'', ABSENT), (''2024-08-11'', ABSENT), (''2024-08-18'', ABSENT),
     (''2024-08-25'', ABSENT), (''2024-09-01'', ABSENT), (''2024-09-08'', ABSENT),
     (''2024-09-15'', ABSENT), (''2024-09-22'', ABSENT), (''2024-09-29'', ABSENT),
     (''2024-10-06'', ABSENT)]"

definition samplePark :: Member where
  "samplePark = \<lparr>id' = Finite 3, name = ''Park'', position = JIPSA, phone = ''010-5555-6666'',
                  attendance = fortySundays\<rparr>"

text \<open>A member whose id is \<open>2^53\<close>, and the import file that holds it.\<close>

definition bigIdMember :: Member where
  "bigIdMember = \<lparr>id' = Finite 9007199254740992, name = ''Lee'', position = JIPSA,
                   phone = ''010-3333-4444'', attendance = []\<rparr>"

definition bigIdFile :: json where
  "bigIdFile =
    JArr [JObj [(''id'', JNum (Finite 9007199254740992)), (''name'', JStr ''Lee''),
                (''position'', JStr JIPSA), (''phone'', JStr ''010-3333-4444''),
                (''attendance'', JObj [])]]"

text \<open>
  A member whose id is \<open>Infinity\<close>, and the value that \<open>JSON.parse\<close> returns on an import
  file which gives the id as \<open>1e999\<close>.
\<close>

definition infiniteIdMember :: Member where
  "infiniteIdMember = \<lparr>id' = PosInfinity, name = ''Kim'', position = JIPSA,
                        phone = ''010-1111-2222'', attendance = []\<rparr>"

definition infiniteIdFile :: json where
  "infiniteIdFile =
    JArr [JObj [(''id'', JNum PosInfinity), (''name'', JStr ''Kim''),
                (''position'', JStr JIPSA), (''phone'', JStr ''010-1111-2222''),
                (''attendance'', JObj [])]]"

text \<open>An argument limit of the order of that of current engines.\<close>

definition sampleMaxArguments :: nat where
  "sampleMaxArguments = 125000"

text \<open>An import file with two members of id 1.\<close>

definition duplicateIdFile :: json where
  "duplicateIdFile =
    JArr [JObj [(''id'', JNum (Finite 1)), (''name'', JStr ''Kim''), (''position'', JStr JIPSA),
                (''phone'', JStr ''010-1111-2222''), (''attendance'', JObj [])],
          JObj [(''id'', JNum (Finite 1)), (''name'', JStr ''Lee''), (''position'', JStr JIPSA),
                (''phone'', JStr ''010-3333-4444''), (''attendance'', JObj [])]]"

text \<open>An import file whose second member has a position outside the enumeration.\<close>

definition badPositionFields :: "(string \<times> json) list" where
  "badPositionFields =
    [(''id'', JNum (Finite 2)), (''name'', JStr ''Lee''), (''position'', JStr ''unknown''),
     (''phone'', JStr ''010''), (''attendance'', JObj [])]"

definition badPositionFile :: "json list" where
  "badPositionFile = [memberJson sampleKim, JObj badPositionFields]"

text \<open>A persisted record in the current layout and one in the legacy layout.\<close>

definition newRecord :: obj where
  "newRecord = [(''id'', JNum (Finite 1)), (''name'', JStr ''Kim''), (''position'', JStr JIPSA),
                (''phone'', JStr ''010-1111-2222''), (''attendance'', JObj [])]"

definition legacyRecord :: obj where
  "legacyRecord = [(''id'', JNum (Finite 2)), (''name'', JStr ''Lee''), (''position'', JStr JIPSA),
                   (''phone'', JStr ''010-3333-4444''), (''status'', JStr PRESENT)]"

text \<open>A persisted record in the legacy layout whose status is the empty string.\<close>

definition blankStatusRecord :: obj where
  "blankStatusRecord = [(''id'', JNum (Finite 3)), (''name'', JStr ''Park''), (''position'', JStr JIPSA),
                        (''phone'', JStr ''010-5555-6666''), (''status'', JStr [])]"

section \<open>Facts about the constants\<close>

lemma PRESENT_neq_ABSENT: "PRESENT \<noteq> ABSENT"
  by (simp add: PRESENT_def ABSENT_def)

lemma statuses_not_empty: "PRESENT \<noteq> []" "ABSENT \<noteq> []"
  by (simp_all add: PRESENT_def ABSENT_def)

lemma JIPSA_position: "JIPSA \<in> set POSITIONS"
  by (simp add: JIPSA_def POSITIONS_def)

lemma unknown_no_position: "''unknown'' \<notin> set POSITIONS"
  by (simp add: POSITIONS_def)

lemma validMember_sampleKim: "validMember sampleKim"
  by (simp add: validMember_def sampleKim_def JIPSA_position isDateKey_def isDigit_def
      ATTENDANCE_STATUSES_def)

lemma finite_id_sampleKim: "isFinite (id' sampleKim)"
  by (simp add: sampleKim_def)

section \<open>Sorting by name\<close>

lemma mset_sortByName: "mset (sortByName collate ms) = mset ms"
  by (simp add: sortByName_def)

lemma sorted_sortByName: "sorted (map (\<lambda>m. collate (name m)) (sortByName collate ms))"
  by (simp add: sortByName_def)

lemma distinct_ids_sortByName:
  "distinct (map id' (sortByName collate ms)) = distinct (map id' ms)"
proof -
  have "mset (map id' (sortByName collate ms)) = mset (map id' ms)"
    by (simp add: mset_sortByName)
  then show ?thesis by (rule mset_eq_imp_distinct_iff)
qed

section \<open>Rounding to a double\<close>

lemma pow2_pos: "0 < pow2 e"
  by (simp add: pow2_def)

lemma roundHalfEven_nonneg: "0 \<le> y \<Longrightarrow> 0 \<le> roundHalfEven y"
  by (auto simp: roundHalfEven_def Let_def)

lemma roundToDouble_nonneg: "0 \<le> x \<Longrightarrow> 0 \<le> roundToDouble x"
  using pow2_pos [of "floorLog2 \<bar>x\<bar> - 52"]
  by (simp add: roundToDouble_def Let_def roundHalfEven_nonneg less_imp_le)

lemma pow2_powi: "pow2 e = 2 powi e"
  by (simp add: pow2_def power_int_def inverse_eq_divide power_one_over)

lemma bitLength_bounds:
  "0 < n \<Longrightarrow> 0 < bitLength n \<and> 2 ^ (bitLength n - 1) \<le> n \<and> n < 2 ^ bitLength n"
proof (induction n rule: bitLength.induct)
  case (1 n)
  show ?case
  proof (cases "n div 2 = 0")
    case True
    with "1.prems" have "n = 1" by presburger
    then show ?thesis by (simp add: bitLength.simps)
  next
    case False
    with "1.prems" have pos: "0 < n div 2" by presburger
    with "1.IH" "1.prems" have IH: "0 < bitLength (n div 2)"
      "2 ^ (bitLength (n div 2) - 1) \<le> n div 2" "n div 2 < 2 ^ bitLength (n div 2)"
      by simp_all
    have eq: "bitLength n = Suc (bitLength (n div 2))"
      using "1.prems" by (subst bitLength.simps) simp
    from IH(1) obtain k where k: "bitLength (n div 2) = Suc k"
      by (cases "bitLength (n div 2)") simp_all
    from IH(2) k have "2 * 2 ^ k \<le> 2 * (n div 2)" by simp
    then have lo: "(2::int) ^ Suc k \<le> n" by simp
    from IH(3) have "n div 2 + 1 \<le> 2 ^ bitLength (n div 2)" by simp
    then have "2 * (n div 2 + 1) \<le> 2 * 2 ^ bitLength (n div 2)" by simp
    then have hi: "n < 2 ^ Suc (bitLength (n div 2))" by simp
    from lo hi show ?thesis by (simp add: eq k)
  qed
qed

lemma powi_split: "a + b = c \<Longrightarrow> (2::rat) powi a * 2 powi b = 2 powi c"
  using power_int_add [of "2::rat" a b] by simp

lemma powi_int_bounds:
  assumes "0 < l" "2 ^ (l - 1) \<le> a" "a < 2 ^ l"
  shows "(2::rat) powi (int l - 1) \<le> of_int a" "of_int a < (2::rat) powi (int l)"
proof -
  have "(of_int (2 ^ (l - 1)) :: rat) \<le> of_int a"
    using assms(2) by (simp only: of_int_le_iff)
  then have "(2::rat) ^ (l - 1) \<le> of_int a" by simp
  moreover have "int l - 1 = int (l - 1)" using assms(1) by simp
  ultimately show "(2::rat) powi (int l - 1) \<le> of_int a"
    by (simp only: power_int_of_nat)
  have "(of_int a :: rat) < of_int (2 ^ l)"
    using assms(3) by (simp only: of_int_less_iff)
  then have "(of_int a :: rat) < 2 ^ l" by simp
  then show "of_int a < (2::rat) powi (int l)"
    by (simp only: power_int_of_nat)
qed

lemma quotient_bounds:
  fixes a b :: int
  assumes la: "(2::rat) powi (la - 1) \<le> of_int a" "of_int a < (2::rat) powi la"
    and lb: "(2::rat) powi (lb - 1) \<le> of_int b" "of_int b < (2::rat) powi lb"
    and b: "0 < b"
  shows "(2::rat) powi (la - lb - 1) \<le> of_int a / of_int b"
    "of_int a / of_int b < (2::rat) powi (la - lb + 1)"
proof -
  have bpos: "(0::rat) < of_int b" using b by simp
  have p: "(0::rat) \<le> 2 powi k" for k by simp
  have "(2::rat) powi (la - lb - 1) * of_int b \<le> 2 powi (la - lb - 1) * 2 powi lb"
    using lb(2) p by (simp only: mult_left_mono less_imp_le)
  also have "\<dots> = 2 powi (la - 1)" by (rule powi_split) simp
  also have "\<dots> \<le> of_int a" by (rule la(1))
  finally show "(2::rat) powi (la - lb - 1) \<le> of_int a / of_int b"
    using bpos by (simp only: pos_le_divide_eq)
  have "of_int a < (2::rat) powi la" by (rule la(2))
  also have "\<dots> = 2 powi (la - lb + 1) * 2 powi (lb - 1)"
    by (rule powi_split [symmetric]) simp
  also have "\<dots> \<le> 2 powi (la - lb + 1) * of_int b"
    using lb(1) p by (simp only: mult_left_mono)
  finally show "of_int a / of_int b < (2::rat) powi (la - lb + 1)"
    using bpos by (simp only: pos_divide_less_eq)
qed

lemma floorLog2_bounds:
  assumes "0 < x"
  shows "pow2 (floorLog2 x) \<le> x \<and> x < 2 * pow2 (floorLog2 x)"
proof -
  obtain a b where q: "quotient_of x = (a, b)" by (cases "quotient_of x")
  then have b: "0 < b" by (rule quotient_of_denom_pos)
  from q have x: "x = of_int a / of_int b" by (rule quotient_of_div)
  with assms b have a: "0 < a" by (simp add: zero_less_divide_iff)
  define d where "d = int (bitLength a) - int (bitLength b)"
  from bitLength_bounds [OF a]
  have A: "(2::rat) powi (int (bitLength a) - 1) \<le> of_int a"
    "of_int a < (2::rat) powi (int (bitLength a))"
    by (simp_all only: powi_int_bounds)
  from bitLength_bounds [OF b]
  have B: "(2::rat) powi (int (bitLength b) - 1) \<le> of_int b"
    "of_int b < (2::rat) powi (int (bitLength b))"
    by (simp_all only: powi_int_bounds)
  from quotient_bounds [OF A B b]
  have lower: "2 powi (d - 1) \<le> x" and upper: "x < 2 powi (d + 1)"
    by (simp_all only: x d_def)
  have two: "(2::rat) * 2 powi k = 2 powi (k + 1)" for k
    using powi_split [of 1 k "k + 1"] by simp
  have fl: "floorLog2 x = (if 2 powi d \<le> x then d else d - 1)"
    by (simp add: floorLog2_def q Let_def d_def pow2_powi)
  show ?thesis
  proof (cases "2 powi d \<le> x")
    case True
    then have "floorLog2 x = d" by (simp only: fl if_True)
    with True upper show ?thesis by (simp only: pow2_powi two)
  next
    case False
    then have e: "floorLog2 x = d - 1" by (simp only: fl if_False)
    from False have "x < 2 powi d" by simp
    moreover have "(2::rat) * 2 powi (d - 1) = 2 powi d"
      using two [of "d - 1"] by simp
    ultimately show ?thesis using lower by (simp only: e pow2_powi)
  qed
qed

lemma roundHalfEven_error: "\<bar>of_int (roundHalfEven y) - y\<bar> \<le> 1 / 2"
proof -
  have "of_int \<lfloor>y\<rfloor> \<le> y" "y < of_int \<lfloor>y\<rfloor> + 1" by linarith+
  then show ?thesis
    by (auto simp: roundHalfEven_def Let_def abs_le_iff)
qed

lemma roundToDouble_error: "\<bar>roundToDouble x - x\<bar> \<le> \<bar>x\<bar> / 2 ^ 53"
proof (cases "x = 0")
  case True
  then show ?thesis by (simp add: roundToDouble_def)
next
  case False
  define u where "u = pow2 (floorLog2 \<bar>x\<bar> - 52)"
  have upos: "0 < u" by (simp add: u_def pow2_powi)
  from False have "0 < \<bar>x\<bar>" by simp
  from floorLog2_bounds [OF this] have "pow2 (floorLog2 \<bar>x\<bar>) \<le> \<bar>x\<bar>" by simp
  moreover have "pow2 (floorLog2 \<bar>x\<bar>) = u * 2 ^ 52"
  proof -
    have "(2::rat) powi (floorLog2 \<bar>x\<bar> - 52 + int 52) =
            2 powi (floorLog2 \<bar>x\<bar> - 52) * 2 powi (int 52)"
      by (rule power_int_add) simp
    moreover have "floorLog2 \<bar>x\<bar> - 52 + int 52 = floorLog2 \<bar>x\<bar>" by simp
    ultimately have "(2::rat) powi (floorLog2 \<bar>x\<bar>) =
            2 powi (floorLog2 \<bar>x\<bar> - 52) * 2 ^ 52"
      by (simp only: power_int_of_nat)
    then show ?thesis by (simp only: u_def pow2_powi)
  qed
  ultimately have ule: "u * 2 ^ 52 \<le> \<bar>x\<bar>" by simp
  have rd: "roundToDouble x = of_int (roundHalfEven (x / u)) * u"
    using False by (simp add: roundToDouble_def Let_def u_def)
  have "roundToDouble x - x = (of_int (roundHalfEven (x / u)) - x / u) * u"
    using upos by (simp add: rd algebra_simps)
  then have "\<bar>roundToDouble x - x\<bar> = \<bar>of_int (roundHalfEven (x / u)) - x / u\<bar> * u"
    using upos by (simp add: abs_mult)
  also have "\<dots> \<le> 1 / 2 * u"
    using roundHalfEven_error [of "x / u"] upos by (simp add: mult_right_mono)
  also have "\<dots> \<le> \<bar>x\<bar> / 2 ^ 53"
    using ule by simp
  finally show ?thesis .
qed


lemma roundHalfEven_of_int: "roundHalfEven (of_int m) = m"
  by (simp add: roundHalfEven_def)

lemma roundToDouble_of_int:
  assumes "\<bar>n\<bar> < 2 ^ 53"
  shows "roundToDouble (of_int n) = of_int n"
proof (cases "n = 0")
  case True
  then show ?thesis by (simp add: roundToDouble_def)
next
  case False
  define x :: rat where "x = of_int n"
  define e where "e = floorLog2 \<bar>x\<bar>"
  have xpos: "0 < \<bar>x\<bar>" using False by (simp add: x_def)
  have "(of_int \<bar>n\<bar> :: rat) < of_int (2 ^ 53)"
    using assms by (simp only: of_int_less_iff)
  then have xlt: "\<bar>x\<bar> < 2 powi 53" by (simp add: x_def)
  from floorLog2_bounds [OF xpos] have xge: "2 powi e \<le> \<bar>x\<bar>"
    by (simp add: e_def pow2_powi)
  have e52: "e \<le> 52"
  proof (rule ccontr)
    assume "\<not> e \<le> 52"
    then have "53 \<le> e" by simp
    then have "(2::rat) powi 53 \<le> 2 powi e" by (rule power_int_increasing) simp
    with xge xlt show False by linarith
  qed
  define k where "k = nat (52 - e)"
  have u: "pow2 (e - 52) = 1 / 2 ^ k"
    using e52 by (auto simp: pow2_def k_def)
  have "x / pow2 (e - 52) = of_int (n * 2 ^ k)"
    by (simp add: u x_def)
  then have "roundHalfEven (x / pow2 (e - 52)) = n * 2 ^ k"
    by (simp only: roundHalfEven_of_int)
  moreover have "roundToDouble x = of_int (roundHalfEven (x / pow2 (e - 52))) * pow2 (e - 52)"
    using False by (simp add: roundToDouble_def Let_def e_def x_def)
  ultimately have "roundToDouble x = of_int (n * 2 ^ k) * (1 / 2 ^ k)"
    by (simp only: u)
  then show ?thesis by (simp add: x_def)
qed

lemma roundToDouble_2_53: "roundToDouble 9007199254740992 = 9007199254740992"
  by code_simp

lemma roundToDouble_succ:
  assumes "\<bar>n\<bar> < 2 ^ 53"
  shows "roundToDouble (of_int n + 1) = of_int (n + 1)"
proof (cases "n + 1 = 2 ^ 53")
  case True
  then have "n = 9007199254740991" by simp
  then show ?thesis using roundToDouble_2_53 by simp
next
  case False
  with assms have "\<bar>n + 1\<bar> < 2 ^ 53" by simp
  from roundToDouble_of_int [OF this] show ?thesis by simp
qed

section \<open>The next id\<close>

lemma numberMax_Finite: "numberMax (Finite a) (Finite b) = Finite (max a b)"
  by (simp add: numberMax_def max_def)

lemma numberMax_NegInfinity: "numberMax NegInfinity y = y"
  by (simp add: numberMax_def)

lemma foldl_numberMax_ints:
  "foldl numberMax (Finite (of_int a)) (map (\<lambda>n. Finite (of_int n)) ns) =
     Finite (of_int (Max (insert a (set ns))))"
proof (induction ns arbitrary: a)
  case Nil
  then show ?case by simp
next
  case (Cons x ns)
  have "Max (insert (max a x) (set ns)) = Max (insert a (insert x (set ns)))"
    by (cases "set ns = {}") (auto simp: max.assoc)
  moreover have "max (of_int a :: rat) (of_int x) = of_int (max a x)"
    by (simp add: max_def)
  ultimately show ?case
    using Cons [of "max a x"] by (simp add: numberMax_Finite)
qed

lemma Math_max_ints:
  assumes "ns \<noteq> []"
  shows "Math_max (map (\<lambda>n. Finite (of_int n)) ns) = Finite (of_int (Max (set ns)))"
proof -
  from assms obtain x xs where ns: "ns = x # xs" by (cases ns) auto
  show ?thesis
    by (simp add: ns Math_max_def numberMax_NegInfinity foldl_numberMax_ints)
qed

lemma isSafeInteger_intValue:
  assumes "isSafeInteger x"
  shows "x = Finite (of_int (intValue x))" "\<bar>intValue x\<bar> < 2 ^ 53"
proof -
  from assms obtain q where x: "x = Finite q" by (cases x) auto
  with assms have q: "q = of_int \<lfloor>q\<rfloor>" "\<bar>q\<bar> < 2 ^ 53" by simp_all
  from q(1) show "x = Finite (of_int (intValue x))" by (simp add: x)
  from q have "\<bar>(of_int \<lfloor>q\<rfloor> :: rat)\<bar> < of_int (2 ^ 53)" by simp
  then have "(of_int \<bar>\<lfloor>q\<rfloor>\<bar> :: rat) < of_int (2 ^ 53)" by (simp only: of_int_abs)
  then have "\<bar>\<lfloor>q\<rfloor>\<bar> < 2 ^ 53" by (simp only: of_int_less_iff)
  then show "\<bar>intValue x\<bar> < 2 ^ 53" by (simp add: x)
qed

lemma safe_ids:
  assumes "list_all (\<lambda>m. isSafeInteger (id' m)) ms"
  shows "map id' ms = map (\<lambda>n. Finite (of_int n)) (map (\<lambda>m. intValue (id' m)) ms)"
  using assms by (induction ms) (auto dest: isSafeInteger_intValue(1))

lemma nextId_safe:
  assumes "list_all (\<lambda>m. isSafeInteger (id' m)) ms"
  shows "nextId ms =
           Finite (of_int ((if ms = [] then 0 else Max ((\<lambda>m. intValue (id' m)) ` set ms)) + 1))"
proof (cases "ms = []")
  case True
  have "roundToDouble (of_int 0 + 1) = of_int (0 + 1)"
    by (rule roundToDouble_succ) simp
  then show ?thesis using True by (simp add: nextId_def)
next
  case False
  define ns where "ns = map (\<lambda>m. intValue (id' m)) ms"
  have ne: "ns \<noteq> []" using False by (simp add: ns_def)
  have "map id' ms = map (\<lambda>n. Finite (of_int n)) ns"
    using safe_ids [OF assms] by (simp only: ns_def)
  then have mx: "Math_max (map id' ms) = Finite (of_int (Max (set ns)))"
    using Math_max_ints [OF ne] by (simp only:)
  have "Max (set ns) \<in> set ns" using ne by simp
  then obtain m where m: "m \<in> set ms" "Max (set ns) = intValue (id' m)"
    by (auto simp: ns_def)
  then have "isSafeInteger (id' m)" using assms by (simp add: list_all_iff)
  then have "\<bar>Max (set ns)\<bar> < 2 ^ 53"
    using isSafeInteger_intValue(2) m(2) by simp
  then have "roundToDouble (of_int (Max (set ns)) + 1) = of_int (Max (set ns) + 1)"
    by (rule roundToDouble_succ)
  then have "nextId ms = Finite (of_int (Max (set ns) + 1))"
    using False by (simp add: nextId_def mx)
  moreover have "set ns = (\<lambda>m. intValue (id' m)) ` set ms" by (simp add: ns_def)
  ultimately show ?thesis
    using False by simp
qed

lemma nextId_fresh:
  assumes "list_all (\<lambda>m. isSafeInteger (id' m)) ms"
  shows "nextId ms \<notin> id' ` set ms"
proof
  assume "nextId ms \<in> id' ` set ms"
  then obtain m where m: "m \<in> set ms" "id' m = nextId ms" by auto
  then have ne: "ms \<noteq> []" by auto
  from m(1) assms have "isSafeInteger (id' m)" by (simp add: list_all_iff)
  then have "id' m = Finite (of_int (intValue (id' m)))"
    by (rule isSafeInteger_intValue(1))
  with m(2) nextId_safe [OF assms] ne
  have "(of_int (intValue (id' m)) :: rat) =
          of_int (Max ((\<lambda>m. intValue (id' m)) ` set ms) + 1)"
    by simp
  then have "intValue (id' m) = Max ((\<lambda>m. intValue (id' m)) ` set ms) + 1"
    by (simp only: of_int_eq_iff)
  moreover have "intValue (id' m) \<le> Max ((\<lambda>m. intValue (id' m)) ` set ms)"
    using m(1) by simp
  ultimately show False by simp
qed

section \<open>Uniqueness of ids\<close>

lemma ids_handleSaveMember: "map id' (handleSaveMember ms uid nm pos ph) = map id' ms"
  by (simp add: handleSaveMember_def)

lemma ids_handleAttendanceChange: "map id' (handleAttendanceChange ms mid date st) = map id' ms"
  by (simp add: handleAttendanceChange_def)

lemma distinct_handleDeleteMember:
  "distinct (map id' ms) \<Longrightarrow> distinct (map id' (handleDeleteMember ms m c))"
  by (simp add: handleDeleteMember_def distinct_map_filter)

lemma handleAddMember_within:
  assumes "length prev \<le> maxArguments"
  shows "handleAddMember collate maxArguments prev nm pos ph =
           Inr (sortByName collate
                  (prev @ [\<lparr>id' = nextId prev, name = nm, position = pos, phone = ph,
                            attendance = []\<rparr>]))"
  using assms by (simp add: handleAddMember_def Let_def)

lemma handleAddMember_Inr:
  assumes "handleAddMember collate maxArguments ms nm pos ph = Inr r"
  shows "r = sortByName collate
           (ms @ [\<lparr>id' = nextId ms, name = nm, position = pos, phone = ph, attendance = []\<rparr>])"
  using assms by (simp add: handleAddMember_def Let_def split: if_splits)

lemma distinct_handleAddMember:
  assumes "distinct (map id' ms)"
    and "list_all (\<lambda>m. isSafeInteger (id' m)) ms"
    and "handleAddMember collate maxArguments ms nm pos ph = Inr r"
  shows "distinct (map id' r)"
proof -
  have "distinct (map id' (ms @ [\<lparr>id' = nextId ms, name = nm, position = pos, phone = ph,
                                   attendance = []\<rparr>]))"
    using assms(1) nextId_fresh [OF assms(2)] by simp
  then show ?thesis
    unfolding handleAddMember_Inr [OF assms(3)] by (simp only: distinct_ids_sortByName)
qed

text \<open>
  C1 (amended). On a roster with pairwise distinct ids, edit, delete and set-attendance
  return a roster with pairwise distinct ids, and so does add whenever it returns and every
  id of the roster is a safe integer (an integer of magnitude below \<open>2^53\<close>). An import
  that is not confirmed leaves the roster as it is; a confirmed import of a sequence that
  the validator accepts returns a roster with pairwise distinct ids exactly when the ids
  of that sequence are pairwise distinct: the validator does not compare ids.
\<close>

theorem ids_unique_amended:
  assumes "distinct (map id' ms)"
  shows "(list_all (\<lambda>m. isSafeInteger (id' m)) ms \<longrightarrow>
            (\<forall>r. handleAddMember collate maxArguments ms nm pos ph = Inr r \<longrightarrow>
                 distinct (map id' r))) \<and>
         distinct (map id' (handleSaveMember ms uid nm' pos' ph')) \<and>
         distinct (map id' (handleDeleteMember ms m c)) \<and>
         distinct (map id' (handleAttendanceChange ms mid date st)) \<and>
         distinct (map id' (fst (handleImportData collate False ms parsedData))) \<and>
         (\<forall>v. validateImportedData parsedData = Inr v \<longrightarrow>
            distinct (map id' (fst (handleImportData collate True ms parsedData))) =
            distinct (map id' v))"
proof -
  have "fst (handleImportData collate False ms parsedData) = ms"
    by (simp add: handleImportData_def split: sum.splits)
  moreover have "list_all (\<lambda>m. isSafeInteger (id' m)) ms \<longrightarrow>
            (\<forall>r. handleAddMember collate maxArguments ms nm pos ph = Inr r \<longrightarrow>
                 distinct (map id' r))"
    using assms distinct_handleAddMember by blast
  ultimately show ?thesis
    using assms
    by (simp add: ids_handleSaveMember distinct_handleDeleteMember
        ids_handleAttendanceChange handleImportData_def distinct_ids_sortByName)
qed

theorem ids_unique_amended_witness:
  "distinct (map id' [sampleKim]) \<and>
   list_all (\<lambda>m. isSafeInteger (id' m)) [sampleKim] \<and>
   handleAddMember codeUnitOrder sampleMaxArguments [sampleKim] ''Lee'' JIPSA ''010-3333-4444'' =
     Inr [sampleKim, sampleLee] \<and>
   distinct (map id' [sampleKim, sampleLee]) \<and>
   distinct (map id' (handleSaveMember [sampleKim] (Finite 1) ''Kim'' JIPSA ''010-0000-0000'')) \<and>
   distinct (map id' (handleDeleteMember [sampleKim] sampleKim True)) \<and>
   distinct (map id' (handleAttendanceChange [sampleKim] (Finite 1) ''2024-01-14'' ABSENT)) \<and>
   distinct (map id' (fst (handleImportData codeUnitOrder True [sampleKim]
                             (Some (serialize [sampleKim, sampleLee])))))"
proof -
  have h: "distinct (map id' [sampleKim])" by simp
  have s: "list_all (\<lambda>m. isSafeInteger (id' m)) [sampleKim]"
    by (simp add: sampleKim_def)
  have l: "length [sampleKim] \<le> sampleMaxArguments"
    by (simp add: sampleMaxArguments_def)
  have "sortByName codeUnitOrder
          ([sampleKim] @ [\<lparr>id' = nextId [sampleKim], name = ''Lee'', position = JIPSA,
                           phone = ''010-3333-4444'', attendance = []\<rparr>]) =
        [sampleKim, sampleLee]"
    by code_simp
  then have a: "handleAddMember codeUnitOrder sampleMaxArguments [sampleKim] ''Lee'' JIPSA
             ''010-3333-4444'' = Inr [sampleKim, sampleLee]"
    by (simp only: handleAddMember_within [OF l])
  have v: "validateImportedData (Some (serialize [sampleKim, sampleLee])) =
             Inr [sampleKim, sampleLee]"
    by code_simp
  from ids_unique_amended [OF h, where collate = codeUnitOrder
      and maxArguments = sampleMaxArguments and nm = "''Lee''"
      and pos = JIPSA and ph = "''010-3333-4444''" and uid = "Finite 1" and nm' = "''Kim''"
      and pos' = JIPSA and ph' = "''010-0000-0000''" and m = sampleKim and c = True
      and mid = "Finite 1" and date = "''2024-01-14''" and st = ABSENT
      and parsedData = "Some (serialize [sampleKim, sampleLee])"] s a v
  have "distinct (map id' [sampleKim, sampleLee]) \<and>
   distinct (map id' (handleSaveMember [sampleKim] (Finite 1) ''Kim'' JIPSA ''010-0000-0000'')) \<and>
   distinct (map id' (handleDeleteMember [sampleKim] sampleKim True)) \<and>
   distinct (map id' (handleAttendanceChange [sampleKim] (Finite 1) ''2024-01-14'' ABSENT)) \<and>
   distinct (map id' (fst (handleImportData codeUnitOrder True [sampleKim]
                             (Some (serialize [sampleKim, sampleLee])))))"
    by blast
  with h s a show ?thesis by blast
qed

theorem ids_unique_counterexample:
  "validateImportedData (Some duplicateIdFile) =
     Inr [\<lparr>id' = Finite 1, name = ''Kim'', position = JIPSA, phone = ''010-1111-2222'',
           attendance = []\<rparr>,
          \<lparr>id' = Finite 1, name = ''Lee'', position = JIPSA, phone = ''010-3333-4444'',
           attendance = []\<rparr>] \<and>
   distinct (map id' [sampleLee]) \<and>
   map id' (fst (handleImportData codeUnitOrder True [sampleLee] (Some duplicateIdFile))) =
     [Finite 1, Finite 1] \<and>
   \<not> distinct (map id' (fst (handleImportData codeUnitOrder True [sampleLee] (Some duplicateIdFile)))) \<and>
   validateImportedData (Some bigIdFile) = Inr [bigIdMember] \<and>
   distinct (map id' [bigIdMember]) \<and>
   handleAddMember codeUnitOrder sampleMaxArguments [bigIdMember] ''Kim'' JIPSA ''010-1111-2222'' =
     Inr [\<lparr>id' = Finite 9007199254740992, name = ''Kim'', position = JIPSA,
           phone = ''010-1111-2222'', attendance = []\<rparr>, bigIdMember] \<and>
   id' bigIdMember = Finite 9007199254740992"
proof -
  have l: "length [bigIdMember] \<le> sampleMaxArguments"
    by (simp add: sampleMaxArguments_def)
  have "sortByName codeUnitOrder
          ([bigIdMember] @ [\<lparr>id' = nextId [bigIdMember], name = ''Kim'', position = JIPSA,
                             phone = ''010-1111-2222'', attendance = []\<rparr>]) =
        [\<lparr>id' = Finite 9007199254740992, name = ''Kim'', position = JIPSA,
           phone = ''010-1111-2222'', attendance = []\<rparr>, bigIdMember]"
    by code_simp
  then have "handleAddMember codeUnitOrder sampleMaxArguments [bigIdMember] ''Kim'' JIPSA
      ''010-1111-2222'' =
     Inr [\<lparr>id' = Finite 9007199254740992, name = ''Kim'', position = JIPSA,
           phone = ''010-1111-2222'', attendance = []\<rparr>, bigIdMember]"
    by (simp only: handleAddMember_within [OF l])
  moreover have "validateImportedData (Some duplicateIdFile) =
     Inr [\<lparr>id' = Finite 1, name = ''Kim'', position = JIPSA, phone = ''010-1111-2222'',
           attendance = []\<rparr>,
          \<lparr>id' = Finite 1, name = ''Lee'', position = JIPSA, phone = ''010-3333-4444'',
           attendance = []\<rparr>]"
    by code_simp
  moreover have "map id' (fst (handleImportData codeUnitOrder True [sampleLee]
                                 (Some duplicateIdFile))) = [Finite 1, Finite 1]"
    by code_simp
  moreover have "validateImportedData (Some bigIdFile) = Inr [bigIdMember]"
    by code_simp
  moreover have "id' bigIdMember = Finite 9007199254740992"
    by (simp add: bigIdMember_def)
  ultimately show ?thesis by simp
qed

section \<open>Round trip\<close>

lemma attendanceLoop_roundtrip:
  assumes "list_all (\<lambda>(date, status). isDateKey date \<and> status \<in> set ATTENDANCE_STATUSES) att"
  shows "attendanceLoop nm (map (\<lambda>(date, status). (date, JStr status)) att) = Inr att"
  using assms by (induction att) auto

lemma validateMember_roundtrip:
  assumes "validMember m" and "isFinite (id' m)"
  shows "validateMember i (memberJson m) = Inr m"
  using assms
  by (simp add: validMember_def validateMember_def memberJson_def attendanceLoop_roundtrip)

lemma validateLoop_roundtrip:
  assumes "list_all validMember S" and "list_all (\<lambda>m. isFinite (id' m)) S"
  shows "validateLoop i (map memberJson S) = Inr S"
  using assms by (induction S arbitrary: i) (simp_all add: validateMember_roundtrip)

text \<open>
  C2 (amended). For every sequence \<open>S\<close> of valid members (position in the enumeration,
  attendance keys of the form of a date, attendance values one of the two statuses) whose
  ids are finite numbers, validating the serialization of \<open>S\<close> succeeds and returns \<open>S\<close>.
  An infinite id is accepted by the validator but serialized as \<open>null\<close>.
\<close>

theorem roundtrip_finite:
  assumes "list_all validMember S" and "list_all (\<lambda>m. isFinite (id' m)) S"
  shows "validateImportedData (Some (serialize S)) = Inr S"
  using assms by (simp add: serialize_def validateLoop_roundtrip)

theorem roundtrip_finite_witness:
  "list_all validMember [sampleKim] \<and> list_all (\<lambda>m. isFinite (id' m)) [sampleKim] \<and>
   validateImportedData (Some (serialize [sampleKim])) = Inr [sampleKim]"
proof -
  have h: "list_all validMember [sampleKim]"
    by (simp add: validMember_sampleKim)
  have f: "list_all (\<lambda>m. isFinite (id' m)) [sampleKim]"
    by (simp add: sampleKim_def)
  from roundtrip_finite [OF h f] h f show ?thesis by blast
qed

theorem roundtrip_counterexample:
  "validMember infiniteIdMember \<and>
   validateImportedData (Some infiniteIdFile) = Inr [infiniteIdMember] \<and>
   serialize [infiniteIdMember] =
     JArr [JObj [(''id'', JNull), (''name'', JStr ''Kim''), (''position'', JStr JIPSA),
                 (''phone'', JStr ''010-1111-2222''), (''attendance'', JObj [])]] \<and>
   validateImportedData (Some (serialize [infiniteIdMember])) = Inl (MissingId 1)"
  by code_simp

section \<open>Legacy migration\<close>

lemma map_of_setKey: "map_of (setKey k v fs) k' = (if k' = k then Some v else map_of fs k')"
  by (induction fs) auto

lemma map_of_deleteKey: "map_of (deleteKey k fs) k' = (if k' = k then None else map_of fs k')"
  by (induction fs) (auto simp: deleteKey_def)

lemma migrateMember_props:
  "map_of (migrateMember today m) ''status'' = None"
  "map_of (migrateMember today m) ''attendance'' =
     Some (JObj (case map_of m ''status'' of
                   Some s \<Rightarrow> if truthy s then [(today, s)] else []
                 | None \<Rightarrow> []))"
  "k \<noteq> ''status'' \<Longrightarrow> k \<noteq> ''attendance'' \<Longrightarrow> map_of (migrateMember today m) k = map_of m k"
  by (simp_all add: migrateMember_def Let_def map_of_setKey map_of_deleteKey split: option.splits)

lemma storedName_migrateMember: "storedName (migrateMember today m) = storedName m"
  by (simp add: storedName_def migrateMember_props(3))

lemma sortStored_named:
  assumes "list_all (\<lambda>m. storedName m \<noteq> None) ms"
  shows "\<exists>r. sortStored collate ms = Roster r \<and> mset r = mset ms"
  using assms by (simp add: sortStored_def)

text \<open>
  C3 (amended). Let the persisted array be non-empty with a string name in every record.
  If its first record has a \<open>status\<close> property, the loaded roster consists of the records
  rebuilt by the migration: the attendance of a record is \<open>{today: status}\<close> when its
  \<open>status\<close> is truthy and \<open>{}\<close> otherwise, the \<open>status\<close> property is dropped and every
  other property is kept. If the first record has no \<open>status\<close> property, the loaded
  roster consists of the records as persisted.
\<close>

theorem migration_amended:
  assumes "parsedMembers = first # rest"
    and "list_all (\<lambda>m. storedName m \<noteq> None) parsedMembers"
  shows "(map_of first ''status'' \<noteq> None \<longrightarrow>
           (\<exists>r. loadMembers collate today (Some parsedMembers) = Roster r \<and>
                mset r = mset (map (migrateMember today) parsedMembers))) \<and>
         (map_of first ''status'' = None \<longrightarrow>
           (\<exists>r. loadMembers collate today (Some parsedMembers) = Roster r \<and>
                mset r = mset parsedMembers)) \<and>
         (\<forall>m. map_of (migrateMember today m) ''status'' = None \<and>
              map_of (migrateMember today m) ''attendance'' =
                Some (JObj (case map_of m ''status'' of
                              Some s \<Rightarrow> if truthy s then [(today, s)] else []
                            | None \<Rightarrow> [])) \<and>
              (\<forall>k. k \<noteq> ''status'' \<and> k \<noteq> ''attendance'' \<longrightarrow>
                     map_of (migrateMember today m) k = map_of m k))"
proof -
  have named: "list_all (\<lambda>m. storedName m \<noteq> None) (map (migrateMember today) parsedMembers)"
    using assms(2) by (simp add: list_all_iff storedName_migrateMember)
  have a: "map_of first ''status'' \<noteq> None \<Longrightarrow>
        \<exists>r. loadMembers collate today (Some parsedMembers) = Roster r \<and>
            mset r = mset (map (migrateMember today) parsedMembers)"
    using sortStored_named [OF named, of collate] assms(1)
    by (simp add: loadMembers_def migrate_def)
  have b: "map_of first ''status'' = None \<Longrightarrow>
        \<exists>r. loadMembers collate today (Some parsedMembers) = Roster r \<and>
            mset r = mset parsedMembers"
    using sortStored_named [OF assms(2), of collate] assms(1)
    by (simp add: loadMembers_def migrate_def)
  from a b show ?thesis
    by (simp add: migrateMember_props)
qed

theorem migration_amended_witness:
  "list_all (\<lambda>m. storedName m \<noteq> None) [legacyRecord, newRecord] \<and>
   map_of legacyRecord ''status'' = Some (JStr PRESENT) \<and>
   map_of (migrateMember ''2024-01-07'' legacyRecord) ''status'' = None \<and>
   map_of (migrateMember ''2024-01-07'' legacyRecord) ''attendance'' =
     Some (JObj [(''2024-01-07'', JStr PRESENT)]) \<and>
   map_of (migrateMember ''2024-01-07'' legacyRecord) ''name'' = Some (JStr ''Lee'')"
proof -
  have h1: "[legacyRecord, newRecord] = legacyRecord # [newRecord]" by simp
  have h2: "list_all (\<lambda>m. storedName m \<noteq> None) [legacyRecord, newRecord]"
    by (simp add: storedName_def legacyRecord_def newRecord_def)
  have s: "map_of legacyRecord ''status'' = Some (JStr PRESENT)"
    by (simp add: legacyRecord_def)
  have n: "map_of legacyRecord ''name'' = Some (JStr ''Lee'')"
    by (simp add: legacyRecord_def)
  have t: "truthy (JStr PRESENT)"
    by (simp add: statuses_not_empty)
  from migration_amended [OF h1 h2, of codeUnitOrder "''2024-01-07''"]
  have "map_of (migrateMember ''2024-01-07'' legacyRecord) ''status'' = None \<and>
        map_of (migrateMember ''2024-01-07'' legacyRecord) ''attendance'' =
          Some (JObj (case map_of legacyRecord ''status'' of
                        Some s \<Rightarrow> if truthy s then [(''2024-01-07'', s)] else []
                      | None \<Rightarrow> [])) \<and>
        map_of (migrateMember ''2024-01-07'' legacyRecord) ''name'' = map_of legacyRecord ''name''"
    by simp
  with h2 s n t show ?thesis by simp
qed

theorem migration_counterexample:
  "loadMembers codeUnitOrder ''2024-01-07'' (Some [newRecord, legacyRecord]) =
     Roster [newRecord, legacyRecord] \<and>
   map_of legacyRecord ''status'' = Some (JStr PRESENT) \<and>
   map_of legacyRecord ''attendance'' = None \<and>
   loadMembers codeUnitOrder ''2024-01-07'' (Some [blankStatusRecord]) =
     Roster [[(''id'', JNum (Finite 3)), (''name'', JStr ''Park''), (''position'', JStr JIPSA),
              (''phone'', JStr ''010-5555-6666''), (''attendance'', JObj [])]]"
  by code_simp

section \<open>Rates\<close>

lemma percentage_nonneg: "0 \<le> mulDouble (divDouble (of_nat p) (of_nat t)) 100"
  by (simp add: mulDouble_def divDouble_def roundToDouble_nonneg)

lemma toFixed0_nonneg: "0 \<le> x \<Longrightarrow> toFixed0 x = String_nat (nat (round x))"
  by (simp add: toFixed0_def round_def)

lemma rate_round:
  "rate p t =
    (if t = 0 then RateNumber 0
     else RateText (String_nat (nat (round (mulDouble (divDouble (of_nat p) (of_nat t)) 100)))))"
  by (simp add: rate_def toFixed0_nonneg percentage_nonneg)

subsection \<open>Accuracy of the double arithmetic\<close>

text \<open>
  Rounding to a double changes a number by at most the fraction \<open>2^-53\<close> of it, so the
  percentage computed on doubles is within \<open>2^-44\<close> of the exact one. An exact percentage
  \<open>100 * p / t\<close> that is not halfway between two integers is at least \<open>1 / (2 * t)\<close>
  away from halfway, which is more than \<open>2^-44\<close> for \<open>t < 2^43\<close>: the rounding of the
  double is then the rounding of the exact percentage.
\<close>

lemma percentage_error:
  assumes "0 < t" "p \<le> t"
  shows "\<bar>mulDouble (divDouble (of_nat p) (of_nat t)) 100 - 100 * of_nat p / of_nat t\<bar>
           \<le> 1 / 2 ^ 44"
proof -
  define r :: rat where "r = of_nat p / of_nat t"
  define q where "q = roundToDouble r"
  define z where "z = roundToDouble (q * 100)"
  have r01: "0 \<le> r" "r \<le> 1" using assms by (simp_all add: r_def)
  have rs: "r / 2 ^ 53 \<le> 1 / 2 ^ 53"
    using r01 by (simp add: divide_right_mono)
  have e1: "\<bar>q - r\<bar> \<le> r / 2 ^ 53"
    using roundToDouble_error [of r] r01 by (simp add: q_def)
  from e1 rs have e1s: "\<bar>q - r\<bar> \<le> 1 / 2 ^ 53" by (rule order_trans)
  have "(1::rat) / 2 ^ 53 \<le> 1" by simp
  with e1s have "\<bar>q - r\<bar> \<le> 1" by (rule order_trans)
  with r01 have q2: "\<bar>q\<bar> \<le> 2" by linarith
  have e2: "\<bar>z - q * 100\<bar> \<le> \<bar>q * 100\<bar> / 2 ^ 53"
    using roundToDouble_error [of "q * 100"] by (simp add: z_def)
  have "\<bar>q * 100\<bar> \<le> 200" using q2 by (simp add: abs_mult)
  with e2 have e2': "\<bar>z - q * 100\<bar> \<le> 200 / 2 ^ 53" by simp
  have "q * 100 - 100 * r = 100 * (q - r)" by simp
  then have "\<bar>q * 100 - 100 * r\<bar> = \<bar>100 * (q - r)\<bar>" by (simp only:)
  also have "\<dots> = 100 * \<bar>q - r\<bar>" by (simp only: abs_mult abs_numeral)
  also have "\<dots> \<le> 100 * (1 / 2 ^ 53)" using e1s by (rule mult_left_mono) simp
  finally have e1': "\<bar>q * 100 - 100 * r\<bar> \<le> 100 / 2 ^ 53" by simp
  have "\<bar>z - 100 * r\<bar> \<le> \<bar>z - q * 100\<bar> + \<bar>q * 100 - 100 * r\<bar>" by simp
  also have "\<dots> \<le> 200 / 2 ^ 53 + 100 / 2 ^ 53" using e2' e1' by (rule add_mono)
  also have "\<dots> \<le> 1 / 2 ^ 44" by simp
  finally show ?thesis
    by (simp add: z_def q_def r_def mulDouble_def divDouble_def)
qed

lemma nearest_integer:
  fixes z :: rat
  assumes t: "0 < t" "t < 2 ^ 43"
    and z: "\<bar>z - 100 * of_nat p / of_nat t\<bar> \<le> 1 / 2 ^ 44"
  shows "\<bar>(of_int (round z) :: rat) - 100 * of_nat p / of_nat t\<bar> \<le> 1 / 2"
proof -
  define y :: rat where "y = 100 * of_nat p / of_nat t"
  define n where "n = round z"
  define eps :: rat where "eps = 1 / 2 ^ 44"
  define g :: rat where "g = 1 / (2 * of_nat t)"
  have n: "of_int n - 1 / 2 \<le> z" "z < of_int n + 1 / 2"
    unfolding n_def round_def by linarith+
  have tpos: "(0::rat) < of_nat t" using t by simp
  have c2: "(0::rat) < 2 * of_nat t" using tpos by simp
  have small: "eps < g"
  proof -
    have "(of_nat t :: rat) < of_nat (2 ^ 43)" using t(2) by (simp only: of_nat_less_iff)
    then have "2 * (of_nat t :: rat) < 2 ^ 44" by simp
    with c2 have "1 / 2 ^ 44 < 1 / (2 * (of_nat t :: rat))"
      by (simp only: frac_less2 [of 1 1] zero_less_one order_refl)
    then show ?thesis by (simp only: eps_def g_def)
  qed
  have zb: "y - eps \<le> z" "z \<le> y + eps"
    using z unfolding y_def eps_def by (simp_all only: abs_le_iff) linarith+
  have ty: "y * (2 * of_nat t) = of_int (200 * int p)"
    using tpos by (simp add: y_def)
  have gap: "g * (2 * of_nat t) = 1"
    using tpos by (simp add: g_def)
  have half: "(of_int n + 1 / 2) * (2 * of_nat t) = (of_int (2 * n * int t + int t) :: rat)"
    "(of_int n - 1 / 2) * (2 * of_nat t) = (of_int (2 * n * int t - int t) :: rat)"
    by (simp_all add: algebra_simps)
  have up: "y \<le> of_int n + 1 / 2"
  proof (rule ccontr)
    assume "\<not> y \<le> of_int n + 1 / 2"
    then have "of_int n + 1 / 2 < y" by simp
    then have "(of_int n + 1 / 2) * (2 * of_nat t) < y * (2 * of_nat t)"
      using c2 by (rule mult_strict_right_mono)
    then have "(of_int (2 * n * int t + int t) :: rat) < of_int (200 * int p)"
      by (simp only: half ty)
    then have "2 * n * int t + int t < 200 * int p" by (simp only: of_int_less_iff)
    then have "2 * n * int t + int t + 1 \<le> 200 * int p" by simp
    then have "(of_int (2 * n * int t + int t + 1) :: rat) \<le> of_int (200 * int p)"
      by (simp only: of_int_le_iff)
    then have "(of_int (2 * n * int t + int t) :: rat) + 1 \<le> of_int (200 * int p)"
      by simp
    then have "(of_int n + 1 / 2) * (2 * of_nat t) + g * (2 * of_nat t) \<le> y * (2 * of_nat t)"
      by (simp only: half ty gap)
    then have "(of_int n + 1 / 2 + g) * (2 * of_nat t) \<le> y * (2 * of_nat t)"
      by (simp only: distrib_right)
    then have "of_int n + 1 / 2 + g \<le> y"
      using c2 by (simp only: mult_le_cancel_right_pos)
    with small zb(1) have "of_int n + 1 / 2 < z" by linarith
    with n(2) show False by simp
  qed
  have lo: "of_int n - 1 / 2 \<le> y"
  proof (rule ccontr)
    assume "\<not> of_int n - 1 / 2 \<le> y"
    then have "y < of_int n - 1 / 2" by simp
    then have "y * (2 * of_nat t) < (of_int n - 1 / 2) * (2 * of_nat t)"
      using c2 by (rule mult_strict_right_mono)
    then have "(of_int (200 * int p) :: rat) < of_int (2 * n * int t - int t)"
      by (simp only: half ty)
    then have "200 * int p < 2 * n * int t - int t" by (simp only: of_int_less_iff)
    then have "200 * int p + 1 \<le> 2 * n * int t - int t" by simp
    then have "(of_int (200 * int p + 1) :: rat) \<le> of_int (2 * n * int t - int t)"
      by (simp only: of_int_le_iff)
    then have "(of_int (200 * int p) :: rat) + 1 \<le> of_int (2 * n * int t - int t)"
      by simp
    then have "y * (2 * of_nat t) + g * (2 * of_nat t) \<le> (of_int n - 1 / 2) * (2 * of_nat t)"
      by (simp only: half ty gap)
    then have "(y + g) * (2 * of_nat t) \<le> (of_int n - 1 / 2) * (2 * of_nat t)"
      by (simp only: distrib_right)
    then have "y + g \<le> of_int n - 1 / 2"
      using c2 by (simp only: mult_le_cancel_right_pos)
    with small zb(2) have "z < of_int n - 1 / 2" by linarith
    with n(1) show False by simp
  qed
  from up lo show ?thesis
    unfolding y_def [symmetric] n_def [symmetric] by (simp only: abs_le_iff) linarith
qed

lemma rate_nearest:
  assumes "0 < t" "t < 2 ^ 43" "p \<le> t"
  shows "\<exists>n. rate p t = RateText (String_nat n) \<and>
             \<bar>of_nat n - 100 * (of_nat p :: rat) / of_nat t\<bar> \<le> 1 / 2"
proof -
  define z where "z = mulDouble (divDouble (of_nat p) (of_nat t)) 100"
  have "0 \<le> z" by (simp add: z_def percentage_nonneg)
  then have "0 \<le> round z" by (simp add: round_def)
  then have "of_nat (nat (round z)) = (of_int (round z) :: rat)" by simp
  moreover have "\<bar>(of_int (round z) :: rat) - 100 * of_nat p / of_nat t\<bar> \<le> 1 / 2"
    using nearest_integer [OF assms(1,2)] percentage_error [OF assms(1,3)]
    by (simp add: z_def)
  moreover have "rate p t = RateText (String_nat (nat (round z)))"
    using assms(1) by (simp add: rate_round z_def)
  ultimately show ?thesis by metis
qed

subsection \<open>The rates of a member\<close>

text \<open>
  C4 (amended). For every member, year and month, each rate of \<open>memberStats\<close> is the number
  \<open>0\<close> when its total is \<open>0\<close>. Otherwise it is the decimal text of the integer nearest
  to the double that \<open>(present / total) * 100\<close> evaluates to (the quotient and the
  product each rounded to a double), the larger integer of two nearest ones. For a total
  below \<open>2^43\<close> that integer is within \<open>1/2\<close> of the exact percentage, so it is a
  nearest integer of it; where the exact percentage lies halfway between two integers, it
  can be the smaller one.
\<close>

theorem memberStats_rates:
  "let s = memberStats dateMonth member year month in
   (totalMonth s = 0 \<longrightarrow> monthRate s = RateNumber 0) \<and>
   (0 < totalMonth s \<longrightarrow>
      monthRate s = RateText (String_nat (nat (round (mulDouble
         (divDouble (of_nat (presentMonth s)) (of_nat (totalMonth s))) 100))))) \<and>
   (0 < totalMonth s \<and> totalMonth s < 2 ^ 43 \<longrightarrow>
      (\<exists>n. monthRate s = RateText (String_nat n) \<and>
           \<bar>of_nat n - 100 * (of_nat (presentMonth s) :: rat) / of_nat (totalMonth s)\<bar> \<le> 1 / 2)) \<and>
   (totalYear s = 0 \<longrightarrow> yearRate s = RateNumber 0) \<and>
   (0 < totalYear s \<longrightarrow>
      yearRate s = RateText (String_nat (nat (round (mulDouble
         (divDouble (of_nat (presentYear s)) (of_nat (totalYear s))) 100))))) \<and>
   (0 < totalYear s \<and> totalYear s < 2 ^ 43 \<longrightarrow>
      (\<exists>n. yearRate s = RateText (String_nat n) \<and>
           \<bar>of_nat n - 100 * (of_nat (presentYear s) :: rat) / of_nat (totalYear s)\<bar> \<le> 1 / 2))"
proof -
  define s where "s = memberStats dateMonth member year month"
  have m: "monthRate s = rate (presentMonth s) (totalMonth s)"
    and y: "yearRate s = rate (presentYear s) (totalYear s)"
    by (simp_all add: s_def memberStats_def Let_def)
  have le: "presentMonth s \<le> totalMonth s" "presentYear s \<le> totalYear s"
    by (simp_all add: s_def memberStats_def Let_def del: filter_filter)
  have "(totalMonth s = 0 \<longrightarrow> monthRate s = RateNumber 0) \<and>
        (0 < totalMonth s \<longrightarrow>
           monthRate s = RateText (String_nat (nat (round (mulDouble
              (divDouble (of_nat (presentMonth s)) (of_nat (totalMonth s))) 100)))))"
    by (simp add: m rate_round)
  moreover have "0 < totalMonth s \<and> totalMonth s < 2 ^ 43 \<longrightarrow>
      (\<exists>n. monthRate s = RateText (String_nat n) \<and>
           \<bar>of_nat n - 100 * (of_nat (presentMonth s) :: rat) / of_nat (totalMonth s)\<bar> \<le> 1 / 2)"
    using rate_nearest [of "totalMonth s" "presentMonth s"] le(1) by (simp only: m) blast
  moreover have "(totalYear s = 0 \<longrightarrow> yearRate s = RateNumber 0) \<and>
        (0 < totalYear s \<longrightarrow>
           yearRate s = RateText (String_nat (nat (round (mulDouble
              (divDouble (of_nat (presentYear s)) (of_nat (totalYear s))) 100)))))"
    by (simp add: y rate_round)
  moreover have "0 < totalYear s \<and> totalYear s < 2 ^ 43 \<longrightarrow>
      (\<exists>n. yearRate s = RateText (String_nat n) \<and>
           \<bar>of_nat n - 100 * (of_nat (presentYear s) :: rat) / of_nat (totalYear s)\<bar> \<le> 1 / 2)"
    using rate_nearest [of "totalYear s" "presentYear s"] le(2) by (simp only: y) blast
  ultimately show ?thesis
    unfolding Let_def s_def [symmetric] by blast
qed

theorem memberStats_rates_witness:
  "presentMonth (memberStats isoMonth sampleKim 2024 0) = 1 \<and>
   totalMonth (memberStats isoMonth sampleKim 2024 0) = 1 \<and>
   monthRate (memberStats isoMonth sampleKim 2024 0) = RateText ''100'' \<and>
   totalMonth (memberStats isoMonth sampleKim 2024 1) = 0 \<and>
   monthRate (memberStats isoMonth sampleKim 2024 1) = RateNumber 0"
proof -
  have c: "presentMonth (memberStats isoMonth sampleKim 2024 0) = 1"
    "totalMonth (memberStats isoMonth sampleKim 2024 0) = 1"
    "totalMonth (memberStats isoMonth sampleKim 2024 1) = 0"
    by code_simp+
  have r: "String_nat (nat (round (mulDouble (divDouble (of_nat 1) (of_nat 1)) 100))) = ''100''"
    by code_simp
  from memberStats_rates [of isoMonth sampleKim 2024 0]
  have "0 < totalMonth (memberStats isoMonth sampleKim 2024 0) \<longrightarrow>
      monthRate (memberStats isoMonth sampleKim 2024 0) =
        RateText (String_nat (nat (round (mulDouble
         (divDouble (of_nat (presentMonth (memberStats isoMonth sampleKim 2024 0)))
            (of_nat (totalMonth (memberStats isoMonth sampleKim 2024 0)))) 100))))"
    unfolding Let_def by blast
  then have a: "monthRate (memberStats isoMonth sampleKim 2024 0) = RateText ''100''"
    by (simp only: c r)
  from memberStats_rates [of isoMonth sampleKim 2024 1]
  have "totalMonth (memberStats isoMonth sampleKim 2024 1) = 0 \<longrightarrow>
      monthRate (memberStats isoMonth sampleKim 2024 1) = RateNumber 0"
    unfolding Let_def by blast
  then have b: "monthRate (memberStats isoMonth sampleKim 2024 1) = RateNumber 0"
    using c(3) by blast
  from a b c show ?thesis by simp
qed

theorem memberStats_rates_counterexample:
  "presentYear (memberStats isoMonth samplePark 2024 0) = 23 \<and>
   totalYear (memberStats isoMonth samplePark 2024 0) = 40 \<and>
   yearRate (memberStats isoMonth samplePark 2024 0) = RateText ''57'' \<and>
   round ((23 / 40) * 100 :: rat) = 58"
proof -
  have "round ((23 / 40) * 100 :: rat) = 58"
    by (simp add: round_def)
  moreover have "presentYear (memberStats isoMonth samplePark 2024 0) = 23"
    by code_simp
  moreover have "totalYear (memberStats isoMonth samplePark 2024 0) = 40"
    by code_simp
  moreover have "yearRate (memberStats isoMonth samplePark 2024 0) = RateText ''57''"
    by code_simp
  ultimately show ?thesis by simp
qed

section \<open>Counters\<close>

lemma count_two:
  assumes "\<And>x. \<not> (P x \<and> Q x)"
  shows "length (filter P xs) + length (filter Q xs) \<le> length xs \<and>
         (length (filter P xs) + length (filter Q xs) = length xs \<longleftrightarrow> (\<forall>x\<in>set xs. P x \<or> Q x))"
proof (induction xs)
  case Nil
  then show ?case by simp
next
  case (Cons x xs)
  from assms have "\<not> (P x \<and> Q x)" by blast
  with Cons show ?case by auto
qed

text \<open>
  C5. For every roster and every date \<open>D\<close>, the counters for the position filter "all"
  satisfy \<open>present + absent \<le> total\<close>, with equality if and only if every member of the
  roster has one of the two attendance statuses for \<open>D\<close>.
\<close>

theorem counts_spec:
  "present (attendanceCounts members ALL_FILTER D) + absent (attendanceCounts members ALL_FILTER D)
     \<le> total (attendanceCounts members ALL_FILTER D) \<and>
   (present (attendanceCounts members ALL_FILTER D) + absent (attendanceCounts members ALL_FILTER D)
      = total (attendanceCounts members ALL_FILTER D) \<longleftrightarrow>
    (\<forall>m\<in>set members. \<exists>s\<in>set ATTENDANCE_STATUSES. map_of (attendance m) D = Some s))"
proof -
  have "\<And>m. \<not> (map_of (attendance m) D = Some PRESENT \<and> map_of (attendance m) D = Some ABSENT)"
    using PRESENT_neq_ABSENT by auto
  from count_two [OF this, where xs = members]
  show ?thesis
    by (simp add: attendanceCounts_def ATTENDANCE_STATUSES_def)
qed

theorem counts_spec_witness:
  "total (attendanceCounts [sampleKim, sampleLee] ALL_FILTER ''2024-01-07'') = 2 \<and>
   present (attendanceCounts [sampleKim, sampleLee] ALL_FILTER ''2024-01-07'') +
     absent (attendanceCounts [sampleKim, sampleLee] ALL_FILTER ''2024-01-07'') \<noteq>
     total (attendanceCounts [sampleKim, sampleLee] ALL_FILTER ''2024-01-07'') \<and>
   present (attendanceCounts [sampleKim] ALL_FILTER ''2024-01-07'') +
     absent (attendanceCounts [sampleKim] ALL_FILTER ''2024-01-07'') =
     total (attendanceCounts [sampleKim] ALL_FILTER ''2024-01-07'')"
proof -
  have t: "total (attendanceCounts [sampleKim, sampleLee] ALL_FILTER ''2024-01-07'') = 2"
    by (simp add: attendanceCounts_def)
  have k: "\<exists>s\<in>set ATTENDANCE_STATUSES. map_of (attendance sampleKim) ''2024-01-07'' = Some s"
    by (simp add: sampleKim_def ATTENDANCE_STATUSES_def)
  have l: "\<not> (\<exists>s\<in>set ATTENDANCE_STATUSES. map_of (attendance sampleLee) ''2024-01-07'' = Some s)"
    by (simp add: sampleLee_def)
  from counts_spec [of "[sampleKim, sampleLee]" "''2024-01-07''"] l
  have a: "present (attendanceCounts [sampleKim, sampleLee] ALL_FILTER ''2024-01-07'') +
     absent (attendanceCounts [sampleKim, sampleLee] ALL_FILTER ''2024-01-07'') \<noteq>
     total (attendanceCounts [sampleKim, sampleLee] ALL_FILTER ''2024-01-07'')"
    by simp
  from counts_spec [of "[sampleKim]" "''2024-01-07''"] k
  have b: "present (attendanceCounts [sampleKim] ALL_FILTER ''2024-01-07'') +
     absent (attendanceCounts [sampleKim] ALL_FILTER ''2024-01-07'') =
     total (attendanceCounts [sampleKim] ALL_FILTER ''2024-01-07'')"
    by simp
  from t a b show ?thesis by simp
qed

section \<open>Filtering\<close>

lemma orNull_eq: "sf \<noteq> [] \<Longrightarrow> (orNull v = Some sf) = (v = Some sf)"
  by (auto simp: orNull_def split: option.splits)

text \<open>
  C6. For every roster, position filter, status filter (one of "all" and the two statuses)
  and viewing date, the filtered roster keeps, in order, exactly the members for which the
  position filter is "all" or equals the position, and the status filter is "all" or
  equals the attendance entry for the viewing date; a member without an entry for that
  date matches neither status.
\<close>

theorem filter_spec:
  assumes "statusFilter = ALL_FILTER \<or> statusFilter \<in> set ATTENDANCE_STATUSES"
  shows "filteredMembers members positionFilter statusFilter viewingDate =
           filter (\<lambda>m. (positionFilter = ALL_FILTER \<or> position m = positionFilter) \<and>
                       (statusFilter = ALL_FILTER \<or>
                        map_of (attendance m) viewingDate = Some statusFilter)) members"
proof (cases "statusFilter = ALL_FILTER")
  case True
  then show ?thesis by (simp add: filteredMembers_def)
next
  case False
  with assms have "statusFilter \<noteq> []"
    using statuses_not_empty by (auto simp: ATTENDANCE_STATUSES_def)
  then show ?thesis
    by (simp add: filteredMembers_def orNull_eq)
qed

theorem filter_spec_witness:
  "(PRESENT = ALL_FILTER \<or> PRESENT \<in> set ATTENDANCE_STATUSES) \<and>
   filteredMembers [sampleKim, sampleLee] ALL_FILTER PRESENT ''2024-01-07'' = [sampleKim] \<and>
   filteredMembers [sampleKim, sampleLee] JIPSA ABSENT ''2024-01-07'' = []"
proof -
  have h1: "PRESENT = ALL_FILTER \<or> PRESENT \<in> set ATTENDANCE_STATUSES"
    by (simp add: ATTENDANCE_STATUSES_def)
  have h2: "ABSENT = ALL_FILTER \<or> ABSENT \<in> set ATTENDANCE_STATUSES"
    by (simp add: ATTENDANCE_STATUSES_def)
  have n: "PRESENT \<noteq> ALL_FILTER" "ABSENT \<noteq> ALL_FILTER" "ABSENT \<noteq> PRESENT"
    by (simp_all add: PRESENT_def ABSENT_def ALL_FILTER_def)
  have a: "filteredMembers [sampleKim, sampleLee] ALL_FILTER PRESENT ''2024-01-07'' = [sampleKim]"
    unfolding filter_spec [OF h1] using n by (simp add: sampleKim_def sampleLee_def)
  have b: "filteredMembers [sampleKim, sampleLee] JIPSA ABSENT ''2024-01-07'' = []"
    unfolding filter_spec [OF h2] using n by (simp add: sampleKim_def sampleLee_def)
  from h1 a b show ?thesis by simp
qed

section \<open>Pagination\<close>

lemma slice_nonneg:
  assumes "0 \<le> s" "0 \<le> e"
  shows "slice xs s e = take (nat e - nat s) (drop (nat s) xs)"
proof (cases "int (length xs) \<le> s")
  case True
  then show ?thesis using assms by (simp add: slice_def Let_def min_def)
next
  case False
  have d: "nat (e - s) = nat e - nat s" for e
    using assms(1) by (cases "0 \<le> e") (simp_all add: nat_diff_distrib')
  show ?thesis
  proof (cases "e \<le> int (length xs)")
    case True
    with False assms show ?thesis by (simp add: slice_def Let_def min_def d)
  next
    case e: False
    have "length (drop (nat s) xs) \<le> nat (int (length xs) - s)"
      using assms False by simp
    moreover have "length (drop (nat s) xs) \<le> nat e - nat s"
      using assms False e by simp
    ultimately show ?thesis
      using False assms e by (simp add: slice_def Let_def min_def)
  qed
qed

lemma paginate_take_drop:
  assumes "1 \<le> page"
  shows "paginate xs page sz = take sz (drop (nat (page - 1) * sz) xs)"
proof -
  have a: "0 \<le> (page - 1) * int sz" using assms by simp
  have b: "nat ((page - 1) * int sz) = nat (page - 1) * sz"
    using assms by (simp add: nat_mult_distrib)
  have c: "nat ((page - 1) * int sz + int sz) - nat ((page - 1) * int sz) = sz"
    using a by (simp add: nat_add_distrib)
  show ?thesis
    unfolding paginate_def Let_def using a b c by (simp add: slice_nonneg)
qed

lemma beyond_last_page:
  assumes "0 < sz" "pageCount len sz < page"
  shows "len \<le> nat (page - 1) * sz"
proof -
  have "\<lceil>(of_nat len :: rat) / of_nat sz\<rceil> \<le> page - 1"
    using assms by (simp add: pageCount_def)
  then have "(of_nat len :: rat) / of_nat sz \<le> of_int (page - 1)"
    using le_of_int_ceiling [of "(of_nat len :: rat) / of_nat sz"]
    by (meson of_int_le_iff order_trans)
  then have "(of_nat len :: rat) \<le> of_int (page - 1) * of_nat sz"
    using assms(1) by (simp add: pos_divide_le_eq)
  then have le: "int len \<le> (page - 1) * int sz"
    by (metis of_int_le_iff of_int_mult of_int_of_nat_eq)
  have "0 \<le> page - 1"
  proof (rule ccontr)
    assume neg: "\<not> 0 \<le> page - 1"
    then have "(page - 1) * int sz \<le> 0" by (simp add: mult_le_0_iff)
    with le have "len = 0" by simp
    then have "pageCount len sz = 0" by (simp add: pageCount_def)
    with assms(2) neg show False by simp
  qed
  with le show ?thesis
    by (metis nat_int nat_mono nat_mult_distrib)
qed

text \<open>
  C7. For every filtered sequence, page number \<open>\<ge> 1\<close> and page size, a page is the slice
  \<open>[(page - 1) * size, page * size)\<close>, so it has at most \<open>size\<close> elements, and it is empty
  for every page greater than \<open>ceil(length / size)\<close>. The program's own page size is 15.
\<close>

theorem paginate_spec:
  assumes "1 \<le> page"
  shows "length (paginate xs page sz) \<le> sz \<and>
         paginate xs page sz = take sz (drop (nat (page - 1) * sz) xs) \<and>
         (0 < sz \<and> pageCount (length xs) sz < page \<longrightarrow> paginate xs page sz = []) \<and>
         length (paginatedMembers filtered page) \<le> ITEMS_PER_PAGE \<and>
         (totalPages filtered < page \<longrightarrow> paginatedMembers filtered page = [])"
proof -
  have "0 < ITEMS_PER_PAGE" by (simp add: ITEMS_PER_PAGE_def)
  with assms beyond_last_page [of sz "length xs" page]
    beyond_last_page [of ITEMS_PER_PAGE "length filtered" page]
  show ?thesis
    by (auto simp: paginate_take_drop paginatedMembers_def totalPages_def)
qed

theorem paginate_spec_witness:
  "(1::int) \<le> 2 \<and> paginate [10, 20, 30 :: nat] 2 2 = [30] \<and>
   pageCount (length [10, 20, 30 :: nat]) 2 < 3 \<and> paginate [10, 20, 30 :: nat] 3 2 = [] \<and>
   totalPages [sampleKim, sampleLee] < 2 \<and> paginatedMembers [sampleKim, sampleLee] 2 = []"
proof -
  have h2: "(1::int) \<le> 2" and h3: "(1::int) \<le> 3" by simp_all
  have p: "pageCount (length [10, 20, 30 :: nat]) 2 < 3"
    by code_simp
  have t: "totalPages [sampleKim, sampleLee] < 2"
    by code_simp
  from paginate_spec [OF h2, of "[10, 20, 30 :: nat]" 2 "[sampleKim, sampleLee]"] t
  have a: "paginate [10, 20, 30 :: nat] 2 2 = [30] \<and> paginatedMembers [sampleKim, sampleLee] 2 = []"
    by simp
  from paginate_spec [OF h3, of "[10, 20, 30 :: nat]" 2 "[]"] p
  have b: "paginate [10, 20, 30 :: nat] 3 2 = []"
    by simp
  from a b p t show ?thesis by simp
qed

section \<open>Adding a member\<close>

text \<open>
  C8 (amended). For every roster that is not longer than the engine's limit on spread
  arguments and every name, position and phone, add returns the roster extended by one
  member with an empty attendance, sorted by the collation of the names. When every id of
  the roster is a safe integer (an integer of magnitude below \<open>2^53\<close>), the id of the new
  member is the maximum of the existing ids (0 for the empty roster) plus 1; in general it
  is the double nearest to that sum. On a roster longer than the limit add fails with a
  \<open>RangeError\<close>.
\<close>

theorem add_amended:
  "(length prev \<le> maxArguments \<longrightarrow>
      (\<exists>r. handleAddMember collate maxArguments prev nm pos ph = Inr r \<and>
           mset r = add_mset \<lparr>id' = nextId prev, name = nm, position = pos, phone = ph,
                               attendance = []\<rparr> (mset prev) \<and>
           sorted (map (\<lambda>m. collate (name m)) r))) \<and>
   (list_all (\<lambda>m. isSafeInteger (id' m)) prev \<longrightarrow>
      nextId prev =
        Finite (of_int ((if prev = [] then 0
                         else Max ((\<lambda>m. intValue (id' m)) ` set prev)) + 1))) \<and>
   (maxArguments < length prev \<longrightarrow>
      handleAddMember collate maxArguments prev nm pos ph = Inl RangeError)"
proof -
  have "maxArguments < length prev \<Longrightarrow>
      handleAddMember collate maxArguments prev nm pos ph = Inl RangeError"
    by (auto simp: handleAddMember_def)
  then show ?thesis
    by (simp add: handleAddMember_within mset_sortByName sorted_sortByName nextId_safe)
qed

theorem add_amended_witness:
  "length [sampleLee] \<le> sampleMaxArguments \<and>
   list_all (\<lambda>m. isSafeInteger (id' m)) [sampleLee] \<and>
   nextId [sampleLee] = Finite 3 \<and>
   handleAddMember codeUnitOrder sampleMaxArguments [sampleLee] ''Kim'' JIPSA ''010-1111-2222'' =
     Inr [\<lparr>id' = Finite 3, name = ''Kim'', position = JIPSA, phone = ''010-1111-2222'',
           attendance = []\<rparr>, sampleLee] \<and>
   handleAddMember codeUnitOrder sampleMaxArguments [] ''Kim'' JIPSA ''010-1111-2222'' =
     Inr [\<lparr>id' = Finite 1, name = ''Kim'', position = JIPSA, phone = ''010-1111-2222'',
           attendance = []\<rparr>]"
proof -
  have l: "length [sampleLee] \<le> sampleMaxArguments"
    by (simp add: sampleMaxArguments_def)
  have s: "list_all (\<lambda>m. isSafeInteger (id' m)) [sampleLee]"
    by (simp add: sampleLee_def)
  have "sortByName codeUnitOrder
          ([sampleLee] @ [\<lparr>id' = nextId [sampleLee], name = ''Kim'', position = JIPSA,
                           phone = ''010-1111-2222'', attendance = []\<rparr>]) =
        [\<lparr>id' = Finite 3, name = ''Kim'', position = JIPSA, phone = ''010-1111-2222'',
           attendance = []\<rparr>, sampleLee]"
    by code_simp
  then have e: "handleAddMember codeUnitOrder sampleMaxArguments [sampleLee] ''Kim'' JIPSA
             ''010-1111-2222'' =
     Inr [\<lparr>id' = Finite 3, name = ''Kim'', position = JIPSA, phone = ''010-1111-2222'',
           attendance = []\<rparr>, sampleLee]"
    by (simp only: handleAddMember_within [OF l])
  have l0: "length ([] :: Member list) \<le> sampleMaxArguments" by simp
  have "sortByName codeUnitOrder
          ([] @ [\<lparr>id' = nextId [], name = ''Kim'', position = JIPSA,
                   phone = ''010-1111-2222'', attendance = []\<rparr>]) =
        [\<lparr>id' = Finite 1, name = ''Kim'', position = JIPSA, phone = ''010-1111-2222'',
           attendance = []\<rparr>]"
    by code_simp
  then have f: "handleAddMember codeUnitOrder sampleMaxArguments [] ''Kim'' JIPSA
             ''010-1111-2222'' =
     Inr [\<lparr>id' = Finite 1, name = ''Kim'', position = JIPSA, phone = ''010-1111-2222'',
           attendance = []\<rparr>]"
    by (simp only: handleAddMember_within [OF l0])
  from add_amended [of "[sampleLee]" sampleMaxArguments codeUnitOrder "''Kim''" JIPSA
      "''010-1111-2222''"] s
  have "nextId [sampleLee] = Finite (of_int (Max ((\<lambda>m. intValue (id' m)) ` set [sampleLee]) + 1))"
    by simp
  then have n: "nextId [sampleLee] = Finite 3"
    by (simp add: sampleLee_def)
  from l s n e f show ?thesis by blast
qed

theorem add_counterexample:
  "length [bigIdMember] \<le> sampleMaxArguments \<and>
   Math_max (map id' [bigIdMember]) = Finite 9007199254740992 \<and>
   handleAddMember codeUnitOrder sampleMaxArguments [bigIdMember] ''Kim'' JIPSA ''010-1111-2222'' =
     Inr [\<lparr>id' = Finite 9007199254740992, name = ''Kim'', position = JIPSA,
           phone = ''010-1111-2222'', attendance = []\<rparr>, bigIdMember] \<and>
   Finite (9007199254740992 + 1) \<noteq> Finite 9007199254740992 \<and>
   handleAddMember codeUnitOrder sampleMaxArguments (replicate 200000 sampleKim)
     ''Lee'' JIPSA ''010-3333-4444'' = Inl RangeError"
proof -
  have "handleAddMember codeUnitOrder sampleMaxArguments (replicate 200000 sampleKim)
     ''Lee'' JIPSA ''010-3333-4444'' = Inl RangeError"
    by (simp add: handleAddMember_def sampleMaxArguments_def)
  moreover have l: "length [bigIdMember] \<le> sampleMaxArguments"
    by (simp add: sampleMaxArguments_def)
  moreover have "Math_max (map id' [bigIdMember]) = Finite 9007199254740992"
    by code_simp
  moreover have "sortByName codeUnitOrder
          ([bigIdMember] @ [\<lparr>id' = nextId [bigIdMember], name = ''Kim'', position = JIPSA,
                             phone = ''010-1111-2222'', attendance = []\<rparr>]) =
        [\<lparr>id' = Finite 9007199254740992, name = ''Kim'', position = JIPSA,
           phone = ''010-1111-2222'', attendance = []\<rparr>, bigIdMember]"
    by code_simp
  then have "handleAddMember codeUnitOrder sampleMaxArguments [bigIdMember] ''Kim'' JIPSA
      ''010-1111-2222'' =
     Inr [\<lparr>id' = Finite 9007199254740992, name = ''Kim'', position = JIPSA,
           phone = ''010-1111-2222'', attendance = []\<rparr>, bigIdMember]"
    by (simp only: handleAddMember_within [OF l])
  ultimately show ?thesis by simp
qed

section \<open>The first failing element\<close>

lemma validateLoop_first_failure:
  assumes "i < length xs"
    and "\<forall>j<i. \<exists>m. validateMember (k + j) (xs ! j) = Inr m"
    and "validateMember (k + i) (xs ! i) = Inl e"
  shows "validateLoop k xs = Inl e"
  using assms
proof (induction xs arbitrary: i k)
  case Nil
  then show ?case by simp
next
  case (Cons x xs)
  show ?case
  proof (cases i)
    case 0
    with Cons.prems show ?thesis by simp
  next
    case (Suc i')
    from Cons.prems(2) Suc obtain m where m: "validateMember k x = Inr m"
      by fastforce
    have a: "\<forall>j<i'. \<exists>m. validateMember (Suc k + j) (xs ! j) = Inr m"
    proof (intro allI impI)
      fix j assume "j < i'"
      then have "Suc j < i" using Suc by simp
      with Cons.prems(2) have "\<exists>m. validateMember (k + Suc j) ((x # xs) ! Suc j) = Inr m"
        by blast
      then show "\<exists>m. validateMember (Suc k + j) (xs ! j) = Inr m" by simp
    qed
    have b: "validateMember (Suc k + i') (xs ! i') = Inl e"
      using Cons.prems(3) Suc by simp
    have c: "i' < length xs" using Cons.prems(1) Suc by simp
    have "validateLoop (Suc k) xs = Inl e"
      by (rule Cons.IH [OF c a b])
    with m show ?thesis by simp
  qed
qed

lemma validateMember_bad_position:
  assumes "map_of fs ''id'' = Some (JNum n)"
    and "map_of fs ''name'' = Some (JStr nm)"
    and "\<not> (\<exists>pos. map_of fs ''position'' = Some (JStr pos) \<and> pos \<in> set POSITIONS)"
  shows "validateMember i (JObj fs) = Inl (InvalidPosition (i + 1) (map_of fs ''position''))"
  using assms
  by (auto simp: validateMember_def split: option.splits json.splits)

text \<open>
  C9. For every input array whose elements before index \<open>i\<close> pass validation and whose
  element at index \<open>i\<close> is an object with a numeric id and a string name but a position
  that is not a string of the enumeration, validation fails with \<open>InvalidPosition\<close>,
  citing the 1-based index \<open>i + 1\<close> and the offending value.
\<close>

theorem invalid_position_spec:
  assumes "i < length data"
    and "\<forall>j<i. \<exists>m. validateMember j (data ! j) = Inr m"
    and "data ! i = JObj fs"
    and "map_of fs ''id'' = Some (JNum n)"
    and "map_of fs ''name'' = Some (JStr nm)"
    and "\<not> (\<exists>pos. map_of fs ''position'' = Some (JStr pos) \<and> pos \<in> set POSITIONS)"
  shows "validateImportedData (Some (JArr data)) =
           Inl (InvalidPosition (i + 1) (map_of fs ''position''))"
proof -
  have "validateMember (0 + i) (data ! i) = Inl (InvalidPosition (i + 1) (map_of fs ''position''))"
    using assms(3-6) by (simp add: validateMember_bad_position)
  moreover have "\<forall>j<i. \<exists>m. validateMember (0 + j) (data ! j) = Inr m"
    using assms(2) by simp
  ultimately have "validateLoop 0 data = Inl (InvalidPosition (i + 1) (map_of fs ''position''))"
    using assms(1) validateLoop_first_failure by blast
  then show ?thesis by simp
qed

theorem invalid_position_spec_witness:
  "validateMember 0 (badPositionFile ! 0) = Inr sampleKim \<and>
   badPositionFile ! 1 = JObj badPositionFields \<and>
   validateImportedData (Some (JArr badPositionFile)) =
     Inl (InvalidPosition 2 (Some (JStr ''unknown'')))"
proof -
  have h1: "1 < length badPositionFile"
    by (simp add: badPositionFile_def)
  have v: "validateMember 0 (badPositionFile ! 0) = Inr sampleKim"
    by (simp add: badPositionFile_def validateMember_roundtrip validMember_sampleKim
        finite_id_sampleKim)
  then have h2: "\<forall>j<1. \<exists>m. validateMember j (badPositionFile ! j) = Inr m"
    by simp
  have h3: "badPositionFile ! 1 = JObj badPositionFields"
    by (simp add: badPositionFile_def)
  have h4: "map_of badPositionFields ''id'' = Some (JNum (Finite 2))"
    by (simp add: badPositionFields_def)
  have h5: "map_of badPositionFields ''name'' = Some (JStr ''Lee'')"
    by (simp add: badPositionFields_def)
  have p: "map_of badPositionFields ''position'' = Some (JStr ''unknown'')"
    by (simp add: badPositionFields_def)
  have h6: "\<not> (\<exists>pos. map_of badPositionFields ''position'' = Some (JStr pos) \<and>
                    pos \<in> set POSITIONS)"
    using unknown_no_position by (simp add: p)
  from invalid_position_spec [OF h1 h2 h3 h4 h5 h6] v h3 p
  show ?thesis by simp
qed

section \<open>Editing a member\<close>

text \<open>
  C10. Edit never reorders the roster: every member keeps its index, its id and its
  attendance; a member with another id is unchanged; a member with the given id gets the
  new name, position and phone; and the roster is unchanged when no member has the id.
\<close>

theorem edit_frame:
  "length (handleSaveMember ms uid nm pos ph) = length ms \<and>
   (\<forall>i < length ms.
      id' (handleSaveMember ms uid nm pos ph ! i) = id' (ms ! i) \<and>
      attendance (handleSaveMember ms uid nm pos ph ! i) = attendance (ms ! i) \<and>
      (id' (ms ! i) \<noteq> uid \<longrightarrow> handleSaveMember ms uid nm pos ph ! i = ms ! i) \<and>
      (id' (ms ! i) = uid \<longrightarrow>
         name (handleSaveMember ms uid nm pos ph ! i) = nm \<and>
         position (handleSaveMember ms uid nm pos ph ! i) = pos \<and>
         phone (handleSaveMember ms uid nm pos ph ! i) = ph)) \<and>
   (uid \<notin> id' ` set ms \<longrightarrow> handleSaveMember ms uid nm pos ph = ms)"
proof -
  have "uid \<notin> id' ` set ms \<Longrightarrow> handleSaveMember ms uid nm pos ph = ms"
    unfolding handleSaveMember_def by (induction ms) auto
  then show ?thesis
    by (simp add: handleSaveMember_def)
qed

theorem edit_frame_witness:
  "handleSaveMember [sampleLee, sampleKim] (Finite 2) ''Ahn'' JIPSA ''010-7777-8888'' ! 1 =
     sampleKim \<and>
   attendance (handleSaveMember [sampleLee, sampleKim] (Finite 1) ''Zoe'' JIPSA ''010-7777-8888'' ! 1) =
     attendance sampleKim \<and>
   name (handleSaveMember [sampleLee, sampleKim] (Finite 1) ''Zoe'' JIPSA ''010-7777-8888'' ! 1) =
     ''Zoe'' \<and>
   handleSaveMember [sampleLee, sampleKim] (Finite 5) ''Ahn'' JIPSA ''010-7777-8888'' =
     [sampleLee, sampleKim]"
proof -
  have i: "id' ([sampleLee, sampleKim] ! 1) = Finite 1"
    "id' ([sampleLee, sampleKim] ! 1) \<noteq> Finite 2"
    "(1::nat) < length [sampleLee, sampleKim]"
    by (simp_all add: sampleKim_def)
  have n: "Finite 5 \<notin> id' ` set [sampleLee, sampleKim]"
    by (simp add: sampleKim_def sampleLee_def)
  from edit_frame [of "[sampleLee, sampleKim]" "Finite 2" "''Ahn''" JIPSA "''010-7777-8888''"] i
  have a: "handleSaveMember [sampleLee, sampleKim] (Finite 2) ''Ahn'' JIPSA ''010-7777-8888'' ! 1 = sampleKim"
    by (metis nth_Cons_0 nth_Cons_Suc One_nat_def)
  from edit_frame [of "[sampleLee, sampleKim]" "Finite 1" "''Zoe''" JIPSA "''010-7777-8888''"] i
  have b: "attendance (handleSaveMember [sampleLee, sampleKim] (Finite 1) ''Zoe'' JIPSA ''010-7777-8888'' ! 1) =
             attendance sampleKim \<and>
           name (handleSaveMember [sampleLee, sampleKim] (Finite 1) ''Zoe'' JIPSA ''010-7777-8888'' ! 1) = ''Zoe''"
    by (metis nth_Cons_0 nth_Cons_Suc One_nat_def)
  from edit_frame [of "[sampleLee, sampleKim]" "Finite 5" "''Ahn''" JIPSA "''010-7777-8888''"] n
  have c: "handleSaveMember [sampleLee, sampleKim] (Finite 5) ''Ahn'' JIPSA ''010-7777-8888'' =
             [sampleLee, sampleKim]"
    by blast
  from a b c show ?thesis by simp
qed

end
